theory Spec2Isabelle
  imports Complex_Main "HOL-Library.Multiset"
begin

section \<open>The Twins loader: \<open>ganite/datasets/dataset_twins.py\<close>\<close>

text \<open>
  The module reads a CSV table with pandas, imputes sentinel values, draws a synthetic
  treatment and splits the rows at random.  The embedding follows \<open>preprocess\<close> line by
  line.  A number is a real extended with NaN.  In the outcome synthesizer and the
  splitter every arithmetic result is rounded to the nearest double; the mean that the
  imputer takes is the exact mean.  Infinities are not values of the model.  The results
  of the four calls into \<open>np.random\<close>, and of three library routines whose rounding
  depends on the library, are inputs of the model.
\<close>

subsection \<open>Data model\<close>

datatype cell = Num real | NaN

datatype error = KeyError string | ValueError | IndexError | OverflowError

text \<open>A cell that is a number, not NaN.\<close>

fun is_num :: "cell \<Rightarrow> bool" where
  "is_num (Num v) = True"
| "is_num NaN = False"

type_synonym column = "cell list"

text \<open>A data frame: its columns in file order, each with its label.\<close>

type_synonym dataframe = "(string \<times> column) list"

text \<open>The six arrays that \<open>preprocess\<close> returns.\<close>

record result =
  train_x :: "cell list list"
  train_t :: "int list"
  train_y :: "int list"
  train_potential_y :: "int list list"
  test_x :: "cell list list"
  test_potential_y :: "int list list"

text \<open>
  The state of \<open>np.random\<close> enters through the values its calls return:
  \<open>uniform j\<close> is entry \<open>j\<close> of \<open>np.random.uniform(-0.01, 0.01, size=[dim, 1])\<close>,
  \<open>normal i\<close> entry \<open>i\<close> of \<open>np.random.normal(0, 0.01, size=[no, 1])\<close>,
  \<open>binomial i p\<close> the \<open>i\<close>-th draw of \<open>np.random.binomial(1, prob_t, [no, 1])\<close> when its
  probability is \<open>p\<close>, and \<open>permutation n\<close> the result of \<open>np.random.permutation(n)\<close>.
\<close>

record random_state =
  uniform :: "nat \<Rightarrow> real"
  normal :: "nat \<Rightarrow> real"
  binomial :: "nat \<Rightarrow> real \<Rightarrow> int"
  permutation :: "nat \<Rightarrow> nat list"

text \<open>What numpy documents about two of these calls.\<close>

definition binomial_ok :: "random_state \<Rightarrow> bool" where
  "binomial_ok rs = (\<forall>i p. binomial rs i p = 0 \<or> binomial rs i p = 1)"

definition permutation_ok :: "random_state \<Rightarrow> nat \<Rightarrow> bool" where
  "permutation_ok rs n = (mset (permutation rs n) = mset [0..<n])"

subsection \<open>Field lists\<close>

definition label_list :: "string list" where
  "label_list = [''outcome(t=0)'', ''outcome(t=1)'']"

definition medrisk_list :: "string list" where
  "medrisk_list =
     [''anemia'', ''cardiac'', ''lung'', ''diabetes'', ''herpes'', ''hydra'', ''hemo'',
      ''chyper'', ''phyper'', ''eclamp'', ''incervix'', ''pre4000'', ''dtotord'',
      ''preterm'', ''renal'', ''rh'', ''uterine'', ''othermr'']"

definition other_list :: "string list" where
  "other_list = [''cigar'', ''drink'', ''wtgain'', ''gestat'', ''dmeduc'', ''nprevist'']"

definition other_list2 :: "string list" where
  "other_list2 = [''pldel'', ''resstatb'']"

definition bin_list :: "string list" where
  "bin_list = [''dmar''] @ medrisk_list"

definition con_list :: "string list" where
  "con_list = [''dmage'', ''mpcb''] @ other_list"

definition cat_list :: "string list" where
  "cat_list = [''adequacy''] @ other_list2"

subsection \<open>Loader: column labels without quote characters\<close>

text \<open>
  \<open>str.replace(old, "")\<close> for a non-empty \<open>old\<close>: scan from the left, dropping each
  occurrence.  Labels are byte strings in UTF-8, where the right single quotation mark
  U+2019 is the three bytes E2 80 99.
\<close>

function replace_empty :: "string \<Rightarrow> string \<Rightarrow> string" where
  "replace_empty old [] = []"
| "replace_empty old (c # cs) =
     (if old \<noteq> [] \<and> take (length old) (c # cs) = old
      then replace_empty old (drop (length old) (c # cs))
      else c # replace_empty old cs)"
  by pat_completeness auto
termination
  by (relation "measure (\<lambda>(old, s). length s)") (auto simp: neq_Nil_conv)

definition clean_label :: "string \<Rightarrow> string" where
  "clean_label col =
     replace_empty [CHR 0xE2, CHR 0x80, CHR 0x99] (replace_empty [CHR 0x27] col)"

definition rename_columns :: "dataframe \<Rightarrow> dataframe" where
  "rename_columns df = map (\<lambda>(col, c). (clean_label col, c)) df"

subsection \<open>Column access\<close>

text \<open>\<open>df[feat]\<close> raises \<open>KeyError\<close> for a label the frame does not have.\<close>

definition get_col :: "dataframe \<Rightarrow> string \<Rightarrow> error + column" where
  "get_col df feat = (case map_of df feat of None \<Rightarrow> Inl (KeyError feat) | Some c \<Rightarrow> Inr c)"

text \<open>\<open>df[feat] = c\<close> overwrites the column in place, or appends a new one.\<close>

definition set_col :: "dataframe \<Rightarrow> string \<Rightarrow> column \<Rightarrow> dataframe" where
  "set_col df feat c =
     (if feat \<in> set (map fst df)
      then map (\<lambda>(n, old). if n = feat then (n, c) else (n, old)) df
      else df @ [(feat, c)])"

text \<open>\<open>df[[f1, f2, ...]]\<close>: the named columns, in the order asked for.\<close>

fun select_cols :: "dataframe \<Rightarrow> string list \<Rightarrow> error + dataframe" where
  "select_cols df [] = Inr []"
| "select_cols df (f # fs) =
     (case get_col df f of
        Inl e \<Rightarrow> Inl e
      | Inr c \<Rightarrow> (case select_cols df fs of Inl e \<Rightarrow> Inl e | Inr rest \<Rightarrow> Inr ((f, c) # rest)))"

definition nrows :: "dataframe \<Rightarrow> nat" where
  "nrows df = (case df of [] \<Rightarrow> 0 | (n, c) # _ \<Rightarrow> length c)"

text \<open>\<open>df.values\<close>: the table row by row.\<close>

definition values_of :: "dataframe \<Rightarrow> cell list list" where
  "values_of df = map (\<lambda>i. map (\<lambda>(n, c). c ! i) df) [0..<nrows df]"

text \<open>A \<open>for\<close> loop over a list that stops at the first exception.\<close>

fun for_each :: "('s \<Rightarrow> 'a \<Rightarrow> error + 's) \<Rightarrow> 'a list \<Rightarrow> 's \<Rightarrow> error + 's" where
  "for_each f [] s = Inr s"
| "for_each f (x # xs) s = (case f s x of Inl e \<Rightarrow> Inl e | Inr s' \<Rightarrow> for_each f xs s')"

subsection \<open>Imputation\<close>

definition nums :: "column \<Rightarrow> real list" where
  "nums col = concat (map (\<lambda>c. case c of Num v \<Rightarrow> [v] | NaN \<Rightarrow> []) col)"

definition count_val :: "column \<Rightarrow> real \<Rightarrow> nat" where
  "count_val col v = length (filter (\<lambda>c. c = Num v) col)"

text \<open>
  \<open>Series.mode()\<close>: the values that occur most often among the non-null entries, in
  ascending order.
\<close>

definition modes :: "column \<Rightarrow> real list" where
  "modes col =
     (let top = fold max (map (count_val col) (nums col)) 0
      in sort (remdups (filter (\<lambda>v. count_val col v = top) (nums col))))"

text \<open>\<open>Series.mode()[0]\<close>: \<open>KeyError\<close> when the series of modes is empty.\<close>

definition mode0 :: "column \<Rightarrow> error + cell" where
  "mode0 col = (case modes col of [] \<Rightarrow> Inl (KeyError ''0'') | m # _ \<Rightarrow> Inr (Num m))"

text \<open>\<open>Series.apply(f)\<close>, element by element.\<close>

fun apply_series :: "(cell \<Rightarrow> error + cell) \<Rightarrow> column \<Rightarrow> error + column" where
  "apply_series f [] = Inr []"
| "apply_series f (x # xs) =
     (case f x of
        Inl e \<Rightarrow> Inl e
      | Inr y \<Rightarrow> (case apply_series f xs of Inl e \<Rightarrow> Inl e | Inr ys \<Rightarrow> Inr (y # ys)))"

text \<open>
  \<open>df[feat] = df[feat].apply(lambda x: df[feat].mode()[0] if x in [8, 9] else x)\<close>:
  the right-hand side is evaluated on the column as it stands before the assignment.
\<close>

definition impute_mode :: "dataframe \<Rightarrow> string \<Rightarrow> error + dataframe" where
  "impute_mode df feat =
     (case get_col df feat of
        Inl e \<Rightarrow> Inl e
      | Inr col \<Rightarrow>
          (case apply_series (\<lambda>x. if x = Num 8 \<or> x = Num 9 then mode0 col else Inr x) col of
             Inl e \<Rightarrow> Inl e
           | Inr col' \<Rightarrow> Inr (set_col df feat col')))"

text \<open>\<open>Series.mean()\<close> skips null entries and is NaN when nothing is left.\<close>

definition series_mean :: "column \<Rightarrow> cell" where
  "series_mean col =
     (if nums col = [] then NaN else Num (sum_list (nums col) / real (length (nums col))))"

text \<open>\<open>df.loc[df[feat] == 99, feat] = df.loc[df[feat] != 99, feat].mean()\<close>\<close>

definition impute_mean :: "dataframe \<Rightarrow> string \<Rightarrow> error + dataframe" where
  "impute_mean df feat =
     (case get_col df feat of
        Inl e \<Rightarrow> Inl e
      | Inr col \<Rightarrow>
          (let m = series_mean (filter (\<lambda>c. c \<noteq> Num 99) col)
           in Inr (set_col df feat (map (\<lambda>c. if c = Num 99 then m else c) col))))"

definition imputation :: "dataframe \<Rightarrow> error + dataframe" where
  "imputation df =
     (case for_each impute_mode medrisk_list df of
        Inl e \<Rightarrow> Inl e
      | Inr df1 \<Rightarrow> for_each impute_mean other_list df1)"

subsection \<open>Feature builder\<close>

text \<open>
  \<open>pd.get_dummies(col)\<close>: one indicator column for each distinct non-null value, the
  values in ascending order.  The labels of the new columns are not modelled (nothing
  reads them).
\<close>

definition get_dummies :: "column \<Rightarrow> column list" where
  "get_dummies col =
     map (\<lambda>v. map (\<lambda>c. if c = Num v then Num 1 else Num 0) col) (sort (remdups (nums col)))"

text \<open>
  \<open>df_new = df[con_list + bin_list]\<close>, then one \<open>pd.concat\<close> with the indicator block of
  each field of \<open>cat_list\<close>.  The result is the columns of \<open>df_new\<close>.
\<close>

definition build_df_new :: "dataframe \<Rightarrow> error + column list" where
  "build_df_new df =
     (case select_cols df (con_list @ bin_list) of
        Inl e \<Rightarrow> Inl e
      | Inr base \<Rightarrow>
          for_each
            (\<lambda>acc feat. case get_col df feat of
                           Inl e \<Rightarrow> Inl e
                         | Inr c \<Rightarrow> Inr (acc @ get_dummies c))
            cat_list (map snd base))"

text \<open>The rows of a list of equally long columns.\<close>

definition rows_of :: "column list \<Rightarrow> cell list list" where
  "rows_of cs = (case cs of [] \<Rightarrow> [] | c # _ \<Rightarrow> map (\<lambda>i. map (\<lambda>c. c ! i) cs) [0..<length c])"

subsection \<open>Float64 arithmetic\<close>

text \<open>
  Rounding of a real number to the nearest double, ties to even: 53 significant bits, the
  exponent at least -1022 (below it the spacing stays \<open>2^-1074\<close>, so small values round
  to a subnormal or to 0).  The doubles are the fixed points of \<open>round64\<close>.  Infinities
  are not values of the model: \<open>overflows64\<close> tells when a result rounds beyond the
  largest double.
\<close>

definition round_half_even :: "real \<Rightarrow> int" where
  "round_half_even y =
     (let f = \<lfloor>y\<rfloor>
      in if y - of_int f < 1 / 2 then f
         else if 1 / 2 < y - of_int f then f + 1
         else if even f then f else f + 1)"

definition exponent64 :: "real \<Rightarrow> int" where
  "exponent64 x = max \<lfloor>log 2 \<bar>x\<bar>\<rfloor> (- 1022)"

definition round64 :: "real \<Rightarrow> real" where
  "round64 x =
     (if x = 0 then 0
      else 2 powi (exponent64 x - 52)
           * of_int (round_half_even (x / 2 powi (exponent64 x - 52))))"

definition overflows64 :: "real \<Rightarrow> bool" where
  "overflows64 x = (2 ^ 1024 \<le> \<bar>round64 x\<bar>)"

text \<open>
  The float64 result of three library routines depends on how the library was built
  (the order of the additions, fused multiply-add, the \<open>exp\<close> of the C library), so the
  model takes their results as inputs, like the random draws:
  \<open>matmul_entry x coef i\<close> is entry \<open>i\<close> of \<open>np.matmul(x, coef)\<close>,
  \<open>expit z\<close> is \<open>scipy.special.expit\<close> at the double \<open>z\<close>, and
  \<open>add_reduce vs\<close> is the sum that \<open>np.mean\<close> takes of the doubles \<open>vs\<close>.
\<close>

record float_lib =
  matmul_entry :: "cell list list \<Rightarrow> cell list \<Rightarrow> nat \<Rightarrow> cell"
  expit :: "real \<Rightarrow> real"
  add_reduce :: "real list \<Rightarrow> real"

subsection \<open>Outcome synthesizer\<close>

text \<open>\<open>np.array(potential_y < 9999, dtype=int)\<close>; a comparison with NaN is false.\<close>

fun below_9999 :: "cell \<Rightarrow> int" where
  "below_9999 (Num v) = (if v < 9999 then 1 else 0)"
| "below_9999 NaN = 0"

definition potential_outcomes :: "dataframe \<Rightarrow> error + int list list" where
  "potential_outcomes df =
     (case select_cols df label_list of
        Inl e \<Rightarrow> Inl e
      | Inr labels \<Rightarrow> Inr (map (map below_9999) (values_of labels)))"

text \<open>
  Elementwise float64 arithmetic on cells: the exact result rounded once; NaN is
  absorbing.
\<close>

fun cadd :: "cell \<Rightarrow> cell \<Rightarrow> cell" where
  "cadd (Num a) (Num b) = Num (round64 (a + b))"
| "cadd _ _ = NaN"

fun cmul :: "cell \<Rightarrow> cell \<Rightarrow> cell" where
  "cmul (Num a) (Num b) = Num (round64 (a * b))"
| "cmul _ _ = NaN"

text \<open>
  Division.  \<open>0 / 0\<close> is NaN.  A non-zero number over 0 is an infinity in float64; the
  model has no infinities and answers NaN there as well.  \<open>preprocess\<close> divides by twice
  a mean of values in \<open>[0, 1]\<close> only; when that mean is 0 one of the values is 0, so the
  code meets the NaN of \<open>0 / 0\<close> and raises in \<open>np.random.binomial\<close>, as the model does.
\<close>

fun cdiv :: "cell \<Rightarrow> cell \<Rightarrow> cell" where
  "cdiv (Num a) (Num b) = (if b = 0 then NaN else Num (round64 (a / b)))"
| "cdiv _ _ = NaN"

fun cexpit :: "float_lib \<Rightarrow> cell \<Rightarrow> cell" where
  "cexpit lib (Num z) = Num (expit lib z)"
| "cexpit lib NaN = NaN"

definition csum :: "float_lib \<Rightarrow> cell list \<Rightarrow> cell" where
  "csum lib xs = (if list_all is_num xs then Num (add_reduce lib (nums xs)) else NaN)"

text \<open>
  \<open>np.mean\<close>: the sum divided by the count; it does not skip NaN, and the mean of an
  empty array is NaN.
\<close>

definition np_mean :: "float_lib \<Rightarrow> cell list \<Rightarrow> cell" where
  "np_mean lib xs =
     (if xs = [] then NaN else cdiv (csum lib xs) (Num (round64 (real (length xs)))))"

text \<open>
  \<open>coef = np.random.uniform(-0.01, 0.01, size=[dim, 1])\<close> and
  \<open>prob_temp = expit(np.matmul(x, coef) + np.random.normal(0, 0.01, size=[no, 1]))\<close>
\<close>

definition coef_of :: "random_state \<Rightarrow> nat \<Rightarrow> cell list" where
  "coef_of rs d = map (\<lambda>j. Num (uniform rs j)) [0..<d]"

definition prob_temp_of ::
  "float_lib \<Rightarrow> random_state \<Rightarrow> cell list list \<Rightarrow> nat \<Rightarrow> cell list" where
  "prob_temp_of lib rs x d =
     map (\<lambda>i. cexpit lib (cadd (matmul_entry lib x (coef_of rs d) i) (Num (normal rs i))))
       [0..<length x]"

text \<open>\<open>prob_t = prob_temp / (2 * np.mean(prob_temp))\<close>\<close>

definition rescale :: "float_lib \<Rightarrow> cell list \<Rightarrow> cell list" where
  "rescale lib prob_temp =
     map (\<lambda>p. cdiv p (cmul (Num 2) (np_mean lib prob_temp))) prob_temp"

text \<open>\<open>prob_t[prob_t > 1] = 1\<close>\<close>

fun clip1 :: "cell \<Rightarrow> cell" where
  "clip1 (Num v) = (if v > 1 then Num 1 else Num v)"
| "clip1 NaN = NaN"

definition prob_t_of ::
  "float_lib \<Rightarrow> random_state \<Rightarrow> cell list list \<Rightarrow> nat \<Rightarrow> cell list" where
  "prob_t_of lib rs x d = map clip1 (rescale lib (prob_temp_of lib rs x d))"

text \<open>
  \<open>np.random.binomial(1, prob_t, [no, 1])\<close> raises \<open>ValueError\<close> when a probability is
  below 0, above 1 or NaN.
\<close>

fun valid_prob :: "cell \<Rightarrow> bool" where
  "valid_prob (Num v) = (0 \<le> v \<and> v \<le> 1)"
| "valid_prob NaN = False"

fun prob_value :: "cell \<Rightarrow> real" where
  "prob_value (Num v) = v"
| "prob_value NaN = 0"

definition draw_treatment :: "random_state \<Rightarrow> cell list \<Rightarrow> error + int list" where
  "draw_treatment rs prob_t =
     (if list_all valid_prob prob_t
      then Inr (map (\<lambda>(i, p). binomial rs i (prob_value p)) (zip [0..<length prob_t] prob_t))
      else Inl ValueError)"

text \<open>
  \<open>y = np.transpose(t) * potential_y[:, 1] + np.transpose(1 - t) * potential_y[:, 0]\<close>
  on the vector \<open>t\<close> of length \<open>no\<close>.
\<close>

definition observed :: "int list \<Rightarrow> int list list \<Rightarrow> int list" where
  "observed t potential_y =
     map (\<lambda>(ti, row). ti * (row ! 1) + (1 - ti) * (row ! 0)) (zip t potential_y)"

text \<open>Everything \<open>preprocess\<close> holds before the division into train and test.\<close>

record synthesis =
  x_of :: "cell list list"
  potential_y_of :: "int list list"
  t_of :: "int list"
  y_of :: "int list"

definition synthesize :: "float_lib \<Rightarrow> random_state \<Rightarrow> dataframe \<Rightarrow> error + synthesis" where
  "synthesize lib rs df =
     (let x = values_of df; no = length x; d = length df
      in case potential_outcomes df of
           Inl e \<Rightarrow> Inl e
         | Inr potential_y \<Rightarrow>
             (case draw_treatment rs (prob_t_of lib rs x d) of
                Inl e \<Rightarrow> Inl e
              | Inr t \<Rightarrow>
                  Inr \<lparr>x_of = x, potential_y_of = potential_y, t_of = t,
                       y_of = observed t potential_y\<rparr>))"

subsection \<open>Splitter\<close>

text \<open>
  \<open>train_rate * no\<close>: the integer \<open>no\<close> is converted to a double and the product is
  rounded to a double.
\<close>

definition float_product :: "real \<Rightarrow> nat \<Rightarrow> real" where
  "float_product train_rate no = round64 (train_rate * round64 (real no))"

text \<open>\<open>int(r)\<close> truncates towards zero.\<close>

definition py_int :: "real \<Rightarrow> int" where
  "py_int r = (if 0 \<le> r then \<lfloor>r\<rfloor> else \<lceil>r\<rceil>)"

text \<open>The slices \<open>xs[:k]\<close> and \<open>xs[k:]\<close>; a negative \<open>k\<close> counts from the end.\<close>

definition slice_to :: "int \<Rightarrow> 'a list \<Rightarrow> 'a list" where
  "slice_to k xs = (if 0 \<le> k then take (nat k) xs else take (length xs - nat (- k)) xs)"

definition slice_from :: "int \<Rightarrow> 'a list \<Rightarrow> 'a list" where
  "slice_from k xs = (if 0 \<le> k then drop (nat k) xs else drop (length xs - nat (- k)) xs)"

definition train_idx_of :: "random_state \<Rightarrow> real \<Rightarrow> nat \<Rightarrow> nat list" where
  "train_idx_of rs train_rate no =
     slice_to (py_int (float_product train_rate no)) (permutation rs no)"

definition test_idx_of :: "random_state \<Rightarrow> real \<Rightarrow> nat \<Rightarrow> nat list" where
  "test_idx_of rs train_rate no =
     slice_from (py_int (float_product train_rate no)) (permutation rs no)"

text \<open>\<open>a[idx]\<close> for an index array: \<open>IndexError\<close> for an index out of bounds.\<close>

definition take_rows :: "'a list \<Rightarrow> nat list \<Rightarrow> error + 'a list" where
  "take_rows a idx =
     (if list_all (\<lambda>i. i < length a) idx then Inr (map (\<lambda>i. a ! i) idx) else Inl IndexError)"

text \<open>
  The division into train and test.  When \<open>no\<close> or the product is too large for a
  double, the conversion fails or \<open>int\<close> meets an infinity: \<open>OverflowError\<close>.
\<close>

definition split :: "random_state \<Rightarrow> real \<Rightarrow> synthesis \<Rightarrow> error + result" where
  "split rs train_rate s =
     (let no = length (x_of s);
          train_idx = train_idx_of rs train_rate no;
          test_idx = test_idx_of rs train_rate no
      in if overflows64 (real no) \<or> overflows64 (train_rate * round64 (real no))
         then Inl OverflowError
         else
        (case take_rows (x_of s) train_idx of Inl e \<Rightarrow> Inl e | Inr trx \<Rightarrow>
        (case take_rows (t_of s) train_idx of Inl e \<Rightarrow> Inl e | Inr trt \<Rightarrow>
        (case take_rows (y_of s) train_idx of Inl e \<Rightarrow> Inl e | Inr tr_y \<Rightarrow>
        (case take_rows (potential_y_of s) train_idx of Inl e \<Rightarrow> Inl e | Inr trp \<Rightarrow>
        (case take_rows (x_of s) test_idx of Inl e \<Rightarrow> Inl e | Inr tex \<Rightarrow>
        (case take_rows (potential_y_of s) test_idx of Inl e \<Rightarrow> Inl e | Inr tep \<Rightarrow>
           Inr \<lparr>train_x = trx, train_t = trt, train_y = tr_y, train_potential_y = trp,
                test_x = tex, test_potential_y = tep\<rparr>)))))))"

subsection \<open>The pipeline\<close>

text \<open>
  \<open>preprocess\<close> on the table that \<open>pd.read_csv\<close> returned.  \<open>df_new\<close> is built (and may
  raise) but nothing reads it afterwards: \<open>x = df.values\<close>.
\<close>

definition preprocess ::
  "float_lib \<Rightarrow> random_state \<Rightarrow> dataframe \<Rightarrow> real \<Rightarrow> error + result" where
  "preprocess lib rs raw train_rate =
     (case imputation (rename_columns raw) of
        Inl e \<Rightarrow> Inl e
      | Inr df \<Rightarrow>
          (case build_df_new df of
             Inl e \<Rightarrow> Inl e
           | Inr df_new \<Rightarrow>
               (case synthesize lib rs df of
                  Inl e \<Rightarrow> Inl e
                | Inr s \<Rightarrow> split rs train_rate s)))"

subsection \<open>Example inputs\<close>

text \<open>
  A random state whose uniform and normal draws are all 0, whose first Bernoulli draw is
  1 and the others 0, and whose permutation is the reversed range.
\<close>

definition example_rs :: random_state where
  "example_rs =
     \<lparr>uniform = (\<lambda>j. 0), normal = (\<lambda>i. 0), binomial = (\<lambda>i p. if i = 0 then 1 else 0),
      permutation = (\<lambda>n. rev [0..<n])\<rparr>"

text \<open>
  A library for the examples: the products of a row and the terms of a sum are
  accumulated from left to right, every step rounded (as numpy sums fewer than 8 values),
  and the sigmoid is its exact value rounded.
\<close>

definition seq_dot :: "cell list \<Rightarrow> cell list \<Rightarrow> cell" where
  "seq_dot row coef = foldl (\<lambda>acc (a, b). cadd acc (cmul a b)) (Num 0) (zip row coef)"

definition seq_sum :: "real list \<Rightarrow> real" where
  "seq_sum vs = foldl (\<lambda>s v. round64 (s + v)) 0 vs"

definition example_lib :: float_lib where
  "example_lib =
     \<lparr>matmul_entry = (\<lambda>x coef i. seq_dot (x ! i) coef),
      expit = (\<lambda>z. round64 (1 / (1 + exp (- z)))),
      add_reduce = seq_sum\<rparr>"

text \<open>The doubles nearest to 0.8, the default \<open>train_rate\<close>, and to 0.7.\<close>

definition rate_08 :: real where
  "rate_08 = 3602879701896397 / 4503599627370496"

definition rate_07 :: real where
  "rate_07 = 3152519739159347 / 4503599627370496"

text \<open>
  Four propensities with mean 1/4, and the double 0.5049998333399998 (the sigmoid of
  0.02).
\<close>

definition example_prob_temp :: "real list" where
  "example_prob_temp = [1 / 8, 1 / 8, 1 / 8, 5 / 8]"

definition prob_0505 :: real where
  "prob_0505 = 4548634122504371 / 9007199254740992"

subsection \<open>Notions used in the statements\<close>

text \<open>
  The accuracy of the sum that \<open>np.mean\<close> takes: on \<open>n\<close> numbers that are not below
  \<open>2^-1010\<close>, the result differs from the exact sum by at most the fraction \<open>eps\<close> of it.
\<close>

definition sum_accurate :: "float_lib \<Rightarrow> nat \<Rightarrow> real \<Rightarrow> bool" where
  "sum_accurate lib n eps =
     (\<forall>vs. length vs = n \<and> (\<forall>v\<in>set vs. 2 powi (- 1010) \<le> v)
        \<longrightarrow> \<bar>add_reduce lib vs - sum_list vs\<bar> \<le> eps * sum_list vs)"

text \<open>The value that \<open>Series.mode()[0]\<close> has when it does not raise.\<close>

definition mode_value :: "column \<Rightarrow> cell" where
  "mode_value col = (case modes col of [] \<Rightarrow> NaN | m # _ \<Rightarrow> Num m)"

text \<open>A medical-risk column and a continuous column after imputation.\<close>

definition mode_imputed :: "column \<Rightarrow> column" where
  "mode_imputed col = map (\<lambda>x. if x = Num 8 \<or> x = Num 9 then mode_value col else x) col"

definition mean_imputed :: "column \<Rightarrow> column" where
  "mean_imputed col =
     map (\<lambda>c. if c = Num 99 then series_mean (filter (\<lambda>c. c \<noteq> Num 99) col) else c) col"

text \<open>
  The spec's wording of the imputed continuous value: the mean of the values of the
  column that are not the sentinel 99 (NaN when there is none).
\<close>

definition mean_non99 :: "column \<Rightarrow> cell" where
  "mean_non99 col =
     (let vs = filter (\<lambda>v. v \<noteq> 99) (nums col)
      in if vs = [] then NaN else Num (sum_list vs / real (length vs)))"

text \<open>
  A table of three records with the 30 feature columns and the two outcome columns; two
  labels carry the stray quote characters that the loader removes.
\<close>

definition twins3 :: dataframe where
  "twins3 =
     [(''dmage'', [Num 25, Num 30, Num 35]),
      (''mpcb'', [Num 1, Num 2, Num 3]),
      (''cigar'', [Num 0, Num 99, Num 10]),
      (''drink'', [Num 0, Num 0, Num 0]),
      (''wtgain'', [Num 20, Num 30, Num 99]),
      (''gestat'', [Num 98, Num 100, Num 99]),
      (''dmeduc'', [Num 12, Num 12, Num 16]),
      (''nprevist'', [Num 10, Num 11, Num 12]),
      (''dmar'', [Num 1, Num 0, Num 1]),
      (CHR 0x27 # ''anemia'' @ [CHR 0x27], [Num 8, Num 8, Num 0]),
      (''cardiac'', [Num 0, Num 9, Num 0]),
      (''lung'', [Num 0, Num 0, Num 0]),
      (''diabetes'', [Num 0, Num 0, Num 0]),
      (''herpes'', [Num 0, Num 0, Num 0]),
      (''hydra'', [Num 0, Num 0, Num 0]),
      (''hemo'', [Num 0, Num 0, Num 0]),
      (''chyper'', [Num 1, Num 8, Num 1]),
      (''phyper'', [Num 0, Num 0, Num 0]),
      (''eclamp'', [Num 0, Num 0, Num 0]),
      (''incervix'', [Num 0, Num 0, Num 0]),
      (''pre4000'', [Num 0, Num 0, Num 0]),
      (''dtotord'', [Num 1, Num 2, Num 1]),
      (''preterm'', [Num 0, Num 0, Num 0]),
      (''renal'', [Num 0, Num 0, Num 0]),
      (''rh'', [Num 0, Num 0, Num 0]),
      (''uterine'', [Num 0, Num 0, Num 0]),
      (''othermr'', [Num 0, Num 0, Num 0]),
      (''adequacy'', [Num 1, Num 2, Num 1]),
      (''pldel'', [Num 1, Num 1, Num 1]),
      (''resstatb'' @ [CHR 0xE2, CHR 0x80, CHR 0x99], [Num 1, Num 2, Num 3]),
      (''outcome(t=0)'', [Num 9999, Num 100, Num 9999]),
      (''outcome(t=1)'', [Num 9999, Num 9999, Num 50])]"

text \<open>The same table after the loader and the imputer.\<close>

definition twins3_imputed :: dataframe where
  "twins3_imputed =
     [(''dmage'', [Num 25, Num 30, Num 35]),
      (''mpcb'', [Num 1, Num 2, Num 3]),
      (''cigar'', [Num 0, Num 5, Num 10]),
      (''drink'', [Num 0, Num 0, Num 0]),
      (''wtgain'', [Num 20, Num 30, Num 25]),
      (''gestat'', [Num 98, Num 100, Num 99]),
      (''dmeduc'', [Num 12, Num 12, Num 16]),
      (''nprevist'', [Num 10, Num 11, Num 12]),
      (''dmar'', [Num 1, Num 0, Num 1]),
      (''anemia'', [Num 8, Num 8, Num 0]),
      (''cardiac'', [Num 0, Num 0, Num 0]),
      (''lung'', [Num 0, Num 0, Num 0]),
      (''diabetes'', [Num 0, Num 0, Num 0]),
      (''herpes'', [Num 0, Num 0, Num 0]),
      (''hydra'', [Num 0, Num 0, Num 0]),
      (''hemo'', [Num 0, Num 0, Num 0]),
      (''chyper'', [Num 1, Num 1, Num 1]),
      (''phyper'', [Num 0, Num 0, Num 0]),
      (''eclamp'', [Num 0, Num 0, Num 0]),
      (''incervix'', [Num 0, Num 0, Num 0]),
      (''pre4000'', [Num 0, Num 0, Num 0]),
      (''dtotord'', [Num 1, Num 2, Num 1]),
      (''preterm'', [Num 0, Num 0, Num 0]),
      (''renal'', [Num 0, Num 0, Num 0]),
      (''rh'', [Num 0, Num 0, Num 0]),
      (''uterine'', [Num 0, Num 0, Num 0]),
      (''othermr'', [Num 0, Num 0, Num 0]),
      (''adequacy'', [Num 1, Num 2, Num 1]),
      (''pldel'', [Num 1, Num 1, Num 1]),
      (''resstatb'', [Num 1, Num 2, Num 3]),
      (''outcome(t=0)'', [Num 9999, Num 100, Num 9999]),
      (''outcome(t=1)'', [Num 9999, Num 9999, Num 50])]"

text \<open>The columns of \<open>df_new\<close> for \<open>twins3\<close>: 8 continuous, 19 binary, 2 + 1 + 3 indicators.\<close>

definition twins3_df_new :: "column list" where
  "twins3_df_new =
     [[Num 25, Num 30, Num 35], [Num 1, Num 2, Num 3], [Num 0, Num 5, Num 10],
      [Num 0, Num 0, Num 0], [Num 20, Num 30, Num 25], [Num 98, Num 100, Num 99],
      [Num 12, Num 12, Num 16], [Num 10, Num 11, Num 12],
      [Num 1, Num 0, Num 1], [Num 8, Num 8, Num 0], [Num 0, Num 0, Num 0],
      [Num 0, Num 0, Num 0], [Num 0, Num 0, Num 0], [Num 0, Num 0, Num 0],
      [Num 0, Num 0, Num 0], [Num 0, Num 0, Num 0], [Num 1, Num 1, Num 1],
      [Num 0, Num 0, Num 0], [Num 0, Num 0, Num 0], [Num 0, Num 0, Num 0],
      [Num 0, Num 0, Num 0], [Num 1, Num 2, Num 1], [Num 0, Num 0, Num 0],
      [Num 0, Num 0, Num 0], [Num 0, Num 0, Num 0], [Num 0, Num 0, Num 0],
      [Num 0, Num 0, Num 0],
      [Num 1, Num 0, Num 1], [Num 0, Num 1, Num 0],
      [Num 1, Num 1, Num 1],
      [Num 1, Num 0, Num 0], [Num 0, Num 1, Num 0], [Num 0, Num 0, Num 1]]"

section \<open>Properties\<close>

subsection \<open>Float64 rounding\<close>

lemma round_half_even_of_int [simp]: "round_half_even (of_int n) = n"
  by (simp add: round_half_even_def)

lemma round_half_even_error: "\<bar>of_int (round_half_even y) - y\<bar> \<le> 1 / 2"
  unfolding round_half_even_def Let_def by auto

lemma round_half_even_le:
  assumes "y \<le> of_int n"
  shows "round_half_even y \<le> n"
proof -
  have f: "\<lfloor>y\<rfloor> \<le> n" using assms by (simp add: floor_le_iff)
  show ?thesis
  proof (cases "y - of_int \<lfloor>y\<rfloor> < 1 / 2")
    case True
    then show ?thesis using f by (simp add: round_half_even_def)
  next
    case False
    then have "of_int \<lfloor>y\<rfloor> < y" by linarith
    then have "of_int \<lfloor>y\<rfloor> < (of_int n :: real)" using assms by linarith
    then have "\<lfloor>y\<rfloor> < n" by simp
    then show ?thesis by (auto simp: round_half_even_def Let_def)
  qed
qed

lemma round_half_even_ge:
  assumes "of_int n \<le> y"
  shows "n \<le> round_half_even y"
proof -
  have "n \<le> \<lfloor>y\<rfloor>" using assms by (simp add: le_floor_iff)
  then show ?thesis by (auto simp: round_half_even_def Let_def)
qed

lemma round64_zero [simp]: "round64 0 = 0"
  by (simp add: round64_def)

lemma powi_pos: "0 < (2::real) powi k"
  by (simp add: power_int_def)

lemma powr_powi: "(2::real) powr real_of_int k = 2 powi k"
  by (rule powr_real_of_int') simp_all

lemma log2_less_powi:
  assumes "0 < y"
  shows "log 2 y < real_of_int k \<longleftrightarrow> y < 2 powi k"
  using assms by (simp add: log_less_iff powr_powi)

lemma log2_ge_powi:
  assumes "0 < y"
  shows "real_of_int k \<le> log 2 y \<longleftrightarrow> 2 powi k \<le> y"
  using assms by (simp add: le_log_iff powr_powi)

lemma exponent64_le:
  assumes "x \<noteq> 0" and "\<bar>x\<bar> < 2 powi (k + 1)" and "- 1022 \<le> k"
  shows "exponent64 x \<le> k"
proof -
  have pos: "0 < \<bar>x\<bar>" using assms(1) by simp
  have "log 2 \<bar>x\<bar> < real_of_int (k + 1)"
    using assms(2) by (simp only: log2_less_powi [OF pos])
  then have "\<lfloor>log 2 \<bar>x\<bar>\<rfloor> < k + 1" by (simp only: floor_less_iff)
  then show ?thesis using assms(3) by (simp add: exponent64_def)
qed

lemma exponent64_eq:
  assumes "2 powi k \<le> \<bar>x\<bar>" and "\<bar>x\<bar> < 2 powi (k + 1)" and "- 1022 \<le> k"
  shows "exponent64 x = k"
proof -
  have pos: "0 < \<bar>x\<bar>" using assms(1) powi_pos [of k] by linarith
  have up: "log 2 \<bar>x\<bar> < real_of_int (k + 1)"
    using assms(2) by (simp only: log2_less_powi [OF pos])
  have lo: "real_of_int k \<le> log 2 \<bar>x\<bar>"
    using assms(1) by (simp only: log2_ge_powi [OF pos])
  have "\<lfloor>log 2 \<bar>x\<bar>\<rfloor> = k"
    using up lo by (simp add: floor_eq_iff)
  then show ?thesis using assms(3) by (simp add: exponent64_def)
qed

lemma exponent64_subnormal:
  assumes "x \<noteq> 0" and "\<bar>x\<bar> < 2 powi (- 1022)"
  shows "exponent64 x = - 1022"
proof -
  have pos: "0 < \<bar>x\<bar>" using assms(1) by simp
  have "log 2 \<bar>x\<bar> < real_of_int (- 1022)"
    using assms(2) by (simp only: log2_less_powi [OF pos])
  then have "\<lfloor>log 2 \<bar>x\<bar>\<rfloor> < - 1022" by (simp only: floor_less_iff)
  then show ?thesis by (simp add: exponent64_def)
qed

lemma round64_eval:
  assumes "2 powi k \<le> \<bar>x\<bar>" and "\<bar>x\<bar> < 2 powi (k + 1)" and "- 1022 \<le> k"
  shows "round64 x = 2 powi (k - 52) * of_int (round_half_even (x / 2 powi (k - 52)))"
proof -
  have "0 < \<bar>x\<bar>" using assms(1) powi_pos [of k] by linarith
  then have "x \<noteq> 0" by auto
  then show ?thesis by (simp add: round64_def exponent64_eq [OF assms])
qed

lemma round64_dyadic:
  assumes "\<bar>m\<bar> < 2 ^ 53" and "- 1074 \<le> k"
  shows "round64 (of_int m * 2 powi k) = of_int m * 2 powi k"
proof (cases "m = 0")
  case True
  then show ?thesis by simp
next
  case False
  define x where "x = of_int m * (2::real) powi k"
  define e where "e = exponent64 x"
  define u where "u = (2::real) powi (e - 52)"
  have upos: "0 < u" by (simp add: u_def powi_pos)
  have x0: "x \<noteq> 0" using False powi_pos [of k] by (simp add: x_def)
  have m53: "(of_int \<bar>m\<bar> :: real) < 2 ^ 53"
    using assms(1) by (metis of_int_less_numeral_power_cancel_iff)
  have "\<bar>x\<bar> = of_int \<bar>m\<bar> * 2 powi k"
    using powi_pos [of k] by (simp add: x_def abs_mult)
  also have "\<dots> < 2 ^ 53 * 2 powi k"
    using m53 powi_pos [of k] by (simp only: mult_less_cancel_right_pos)
  also have "(2::real) ^ 53 * 2 powi k = 2 powi (k + 52 + 1)"
  proof -
    have "(2::real) powi (k + 52 + 1) = 2 powi k * 2 powi 53"
      by (subst power_int_add [symmetric]) (simp_all add: algebra_simps)
    also have "(2::real) powi 53 = 2 ^ 53" by (simp only: power_int_numeral)
    finally show ?thesis by (simp only: mult.commute)
  qed
  finally have "\<bar>x\<bar> < 2 powi (k + 52 + 1)" .
  from exponent64_le [OF x0 this] assms(2) have ele: "e \<le> k + 52" by (simp add: e_def)
  define j where "j = nat (k + 52 - e)"
  have kk: "k = (e - 52) + int j" using ele by (simp add: j_def)
  have pk: "(2::real) powi k = u * 2 ^ j"
  proof -
    have "(2::real) powi k = 2 powi ((e - 52) + int j)"
      by (rule arg_cong [where f = "\<lambda>i. 2 powi i", OF kk])
    also have "\<dots> = 2 powi (e - 52) * 2 powi (int j)"
      by (rule power_int_add) simp
    finally show ?thesis by (simp add: u_def)
  qed
  have "x / u = of_int (m * 2 ^ j)"
    using upos by (simp add: x_def pk)
  then have "round_half_even (x / u) = m * 2 ^ j"
    by (simp only: round_half_even_of_int)
  moreover have "round64 x = u * of_int (round_half_even (x / u))"
    using x0 by (simp add: round64_def u_def e_def)
  ultimately have "round64 x = u * of_int (m * 2 ^ j)" by simp
  also have "\<dots> = x" by (simp add: x_def pk)
  finally show ?thesis by (simp only: x_def)
qed

lemma round64_nat:
  assumes "n < 2 ^ 53"
  shows "round64 (real n) = real n"
proof -
  have "int n < 2 ^ 53" using assms by (metis of_nat_less_numeral_power_cancel_iff)
  then have "\<bar>int n\<bar> < 2 ^ 53" by simp
  from round64_dyadic [OF this, of 0] show ?thesis by simp
qed

lemma round64_unfold:
  assumes "x \<noteq> 0"
  shows "round64 x = 2 powi (exponent64 x - 52)
                      * of_int (round_half_even (x / 2 powi (exponent64 x - 52)))"
  using assms by (simp add: round64_def)

lemma round64_nonneg:
  assumes "0 \<le> x"
  shows "0 \<le> round64 x"
proof (cases "x = 0")
  case True
  then show ?thesis by simp
next
  case False
  define u where "u = (2::real) powi (exponent64 x - 52)"
  have upos: "0 < u" by (simp add: u_def powi_pos)
  have "of_int 0 \<le> x / u" using assms upos by simp
  then have "0 \<le> round_half_even (x / u)" by (rule round_half_even_ge)
  then have "0 \<le> u * of_int (round_half_even (x / u))" using upos by simp
  then show ?thesis by (simp only: round64_unfold [OF False] u_def)
qed

lemma round64_le_nat:
  assumes "x \<le> real n" and "n < 2 ^ 53" and "0 \<le> x"
  shows "round64 x \<le> real n"
proof (cases "x = 0")
  case True
  then show ?thesis by simp
next
  case False
  define e where "e = exponent64 x"
  define u where "u = (2::real) powi (e - 52)"
  have upos: "0 < u" by (simp add: u_def powi_pos)
  have n53: "real n < 2 ^ 53" using assms(2) by (metis of_nat_less_numeral_power_cancel_iff)
  have "(2::real) powi (52 + 1) = 2 ^ 53" by simp
  then have "\<bar>x\<bar> < 2 powi (52 + 1)" using n53 assms(1,3) by linarith
  from exponent64_le [OF False this] have ele: "e \<le> 52" by (simp add: e_def)
  define j where "j = nat (52 - e)"
  have "u * 2 powi (int j) = 2 powi ((e - 52) + int j)"
    unfolding u_def by (rule power_int_add [symmetric]) simp
  also have "(e - 52) + int j = 0" using ele by (simp add: j_def)
  finally have uj: "u * 2 ^ j = 1" by simp
  have "x / u \<le> real n / u"
    using assms(1) upos by (simp add: divide_right_mono)
  also have "real n / u = real n * (u * 2 ^ j) / u" by (simp only: uj mult_1_right)
  also have "\<dots> = of_int (int n * 2 ^ j)" using upos by simp
  finally have "round_half_even (x / u) \<le> int n * 2 ^ j" by (rule round_half_even_le)
  then have "(of_int (round_half_even (x / u)) :: real) \<le> of_int (int n * 2 ^ j)"
    by (simp only: of_int_le_iff)
  then have "u * of_int (round_half_even (x / u)) \<le> u * of_int (int n * 2 ^ j)"
    using upos by (simp only: mult_le_cancel_left_pos)
  also have "u * of_int (int n * 2 ^ j) = real n * (u * 2 ^ j)" by simp
  also have "\<dots> = real n" by (simp only: uj mult_1_right)
  finally show ?thesis by (simp only: round64_unfold [OF False] u_def e_def)
qed

lemma powi_neg_numeral: "(2::real) powi (- numeral n) = 1 / 2 ^ numeral n"
  by (simp add: power_int_def power_one_over)

lemma round64_one [simp]: "round64 1 = 1"
  using round64_nat [of 1] by simp

lemma round64_numeral_small:
  assumes "(numeral n :: nat) < 2 ^ 53"
  shows "round64 (numeral n) = numeral n"
  using round64_nat [OF assms] by simp

lemma round64_half [simp]: "round64 (1 / 2) = 1 / 2"
  using round64_dyadic [of 1 "- 1"] by (simp add: powi_neg_numeral)

lemma exponent64_normal:
  assumes "2 powi (- 1022) \<le> \<bar>y\<bar>"
  shows "2 powi (exponent64 y) \<le> \<bar>y\<bar>"
proof -
  have pos: "0 < \<bar>y\<bar>" using assms powi_pos [of "- 1022"] by linarith
  have "real_of_int (- 1022) \<le> log 2 \<bar>y\<bar>"
    using assms by (simp only: log2_ge_powi [OF pos])
  then have "- 1022 \<le> \<lfloor>log 2 \<bar>y\<bar>\<rfloor>" by (simp only: le_floor_iff)
  then have e: "exponent64 y = \<lfloor>log 2 \<bar>y\<bar>\<rfloor>" by (simp add: exponent64_def)
  have "real_of_int \<lfloor>log 2 \<bar>y\<bar>\<rfloor> \<le> log 2 \<bar>y\<bar>" by simp
  then have "2 powi \<lfloor>log 2 \<bar>y\<bar>\<rfloor> \<le> \<bar>y\<bar>" by (simp only: log2_ge_powi [OF pos])
  then show ?thesis by (simp only: e)
qed

lemma round64_rel:
  assumes "2 powi (- 1022) \<le> \<bar>y\<bar>"
  shows "\<bar>round64 y - y\<bar> \<le> \<bar>y\<bar> / 2 ^ 53"
proof -
  define e where "e = exponent64 y"
  define u where "u = (2::real) powi (e - 52)"
  have upos: "0 < u" by (simp add: u_def powi_pos)
  have y0: "y \<noteq> 0" using assms powi_pos [of "- 1022"] by auto
  have r: "round64 y = u * of_int (round_half_even (y / u))"
    by (simp only: round64_unfold [OF y0] u_def e_def)
  have "round64 y - y = u * (of_int (round_half_even (y / u)) - y / u)"
    using upos by (simp add: r algebra_simps)
  then have "\<bar>round64 y - y\<bar> = u * \<bar>of_int (round_half_even (y / u)) - y / u\<bar>"
    using upos by (simp add: abs_mult)
  also have "\<dots> \<le> u * (1 / 2)"
    using upos round_half_even_error [of "y / u"] by (simp only: mult_le_cancel_left_pos)
  also have "u * (1 / 2) = 2 powi e / 2 ^ 53"
  proof -
    have "(2::real) powi e = 2 powi ((e - 52) + 52)" by simp
    also have "\<dots> = u * 2 powi 52" unfolding u_def by (rule power_int_add) simp
    finally show ?thesis by simp
  qed
  also have "\<dots> \<le> \<bar>y\<bar> / 2 ^ 53"
    using exponent64_normal [OF assms] by (simp add: e_def divide_right_mono)
  finally show ?thesis .
qed

lemma round64_pos_bounds:
  assumes "2 powi (- 1022) \<le> y"
  shows "y * (1 - 1 / 2 ^ 53) \<le> round64 y" and "round64 y \<le> y * (1 + 1 / 2 ^ 53)"
proof -
  have pos: "0 < y" using assms powi_pos [of "- 1022"] by linarith
  then have "2 powi (- 1022) \<le> \<bar>y\<bar>" using assms by simp
  from round64_rel [OF this] pos have "\<bar>round64 y - y\<bar> \<le> y / 2 ^ 53" by simp
  then have a: "round64 y - y \<le> y / 2 ^ 53" and b: "- (y / 2 ^ 53) \<le> round64 y - y"
    by linarith+
  have c: "y * (1 - 1 / 2 ^ 53) = y - y / 2 ^ 53" "y * (1 + 1 / 2 ^ 53) = y + y / 2 ^ 53"
    by (simp_all add: algebra_simps)
  show "y * (1 - 1 / 2 ^ 53) \<le> round64 y" using b unfolding c(1) by linarith
  show "round64 y \<le> y * (1 + 1 / 2 ^ 53)" using a unfolding c(2) by linarith
qed

lemma round64_u:
  assumes "2 powi (- 1022) \<le> y" and "u = 1 / 2 ^ 53"
  shows "y * (1 - u) \<le> round64 y" and "round64 y \<le> y * (1 + u)"
  using round64_pos_bounds [OF assms(1)] by (simp_all only: assms(2))

lemma round64_div_pow2:
  assumes "\<bar>m\<bar> < 2 ^ 53" and "j \<le> 1074"
  shows "round64 (of_int m / 2 ^ j) = of_int m / 2 ^ j"
proof -
  have "(2::real) powi (- int j) = 1 / 2 ^ j"
    by (simp add: power_int_minus divide_inverse)
  then show ?thesis
    using round64_dyadic [OF assms(1), of "- int j"] assms(2) by simp
qed

lemma round64_small_values:
  "round64 (1 / 8) = 1 / 8" "round64 (1 / 4) = 1 / 4" "round64 (3 / 8) = 3 / 8"
  "round64 (3 / 4) = 3 / 4" "round64 (5 / 4) = 5 / 4" "round64 2 = 2" "round64 4 = 4"
  using round64_div_pow2 [of 1 3] round64_div_pow2 [of 1 2] round64_div_pow2 [of 3 3]
    round64_div_pow2 [of 3 2] round64_div_pow2 [of 5 2] round64_nat [of 2] round64_nat [of 4]
  by simp_all

subsection \<open>Splitter\<close>

lemma slice_append: "slice_to k xs @ slice_from k xs = xs"
  by (simp add: slice_to_def slice_from_def)

lemma idx_append: "train_idx_of rs r no @ test_idx_of rs r no = permutation rs no"
  by (simp add: train_idx_of_def test_idx_of_def slice_append)

lemma permutation_ok_props:
  assumes "permutation_ok rs no"
  shows "length (permutation rs no) = no" and "distinct (permutation rs no)"
    and "set (permutation rs no) = {0..<no}"
proof -
  have m: "mset (permutation rs no) = mset [0..<no]"
    using assms by (simp add: permutation_ok_def)
  show "length (permutation rs no) = no"
    using mset_eq_length [OF m] by simp
  show "distinct (permutation rs no)"
    using mset_eq_imp_distinct_iff [OF m] by simp
  show "set (permutation rs no) = {0..<no}"
    using mset_eq_setD [OF m] by simp
qed

lemma float_product_unit:
  assumes "0 \<le> r" and "r \<le> 1" and "no < 2 ^ 53"
  shows "0 \<le> float_product r no" and "float_product r no \<le> real no"
proof -
  have n: "round64 (real no) = real no" by (rule round64_nat [OF assms(3)])
  have nn: "0 \<le> r * real no" using assms(1) by simp
  have le: "r * real no \<le> real no" using assms(1,2) by (simp add: mult_left_le_one_le)
  show "0 \<le> float_product r no"
    unfolding float_product_def n by (rule round64_nonneg [OF nn])
  show "float_product r no \<le> real no"
    unfolding float_product_def n by (rule round64_le_nat [OF le assms(3) nn])
qed

lemma float_product_rate_07: "float_product rate_07 10 = 7"
proof -
  have a: "round64 10 = 10" using round64_nat [of 10] by simp
  have "round64 (rate_07 * 10)
      = 2 powi (2 - 52) * of_int (round_half_even (rate_07 * 10 / 2 powi (2 - 52)))"
    by (rule round64_eval) (simp_all add: rate_07_def powi_neg_numeral)
  also have "\<dots> = 7"
    by (simp add: rate_07_def powi_neg_numeral round_half_even_def Let_def)
  finally show ?thesis by (simp add: float_product_def a)
qed

text \<open>
  Claim C4, as the code has it.  For a table of \<open>no\<close> records and every \<open>train_rate\<close>, the
  train and test index sets are disjoint, their union is \<open>[0, no)\<close>, every index occurs
  exactly once in the two together, and the two sizes add up to \<open>no\<close>.  The number of
  training rows is \<open>floor(train_rate * no)\<close>, the product rounded to a double as the code
  computes it, when \<open>0 \<le> train_rate \<le> 1\<close> (and \<open>no\<close> is below \<open>2^53\<close>).
\<close>

theorem splitter_partition:
  assumes "permutation_ok rs no"
  shows "set (train_idx_of rs r no) \<inter> set (test_idx_of rs r no) = {}
       \<and> set (train_idx_of rs r no) \<union> set (test_idx_of rs r no) = {0..<no}
       \<and> distinct (train_idx_of rs r no @ test_idx_of rs r no)
       \<and> length (train_idx_of rs r no) + length (test_idx_of rs r no) = no
       \<and> (0 \<le> r \<and> r \<le> 1 \<and> no < 2 ^ 53 \<longrightarrow>
            int (length (train_idx_of rs r no)) = \<lfloor>float_product r no\<rfloor>)"
proof -
  let ?tr = "train_idx_of rs r no" and ?te = "test_idx_of rs r no"
  have app: "?tr @ ?te = permutation rs no" by (rule idx_append)
  have d: "distinct (?tr @ ?te)"
    using permutation_ok_props(2) [OF assms] by (simp only: app)
  have s: "set (?tr @ ?te) = {0..<no}"
    using permutation_ok_props(3) [OF assms] by (simp only: app)
  have l: "length (?tr @ ?te) = no"
    using permutation_ok_props(1) [OF assms] by (simp only: app)
  have fl: "int (length ?tr) = \<lfloor>float_product r no\<rfloor>" if "0 \<le> r" "r \<le> 1" "no < 2 ^ 53"
  proof -
    note b = float_product_unit [OF that]
    have k0: "0 \<le> \<lfloor>float_product r no\<rfloor>" using b(1) by simp
    have "\<lfloor>float_product r no\<rfloor> \<le> \<lfloor>real no\<rfloor>" using b(2) by (rule floor_mono)
    then have k1: "\<lfloor>float_product r no\<rfloor> \<le> int no" by simp
    have "length ?tr = min no (nat \<lfloor>float_product r no\<rfloor>)"
      using b(1) permutation_ok_props(1) [OF assms]
      by (simp add: train_idx_of_def slice_to_def py_int_def)
    then show ?thesis using k0 k1 by simp
  qed
  from d s l fl show ?thesis by auto
qed

theorem splitter_partition_witness:
  "permutation_ok example_rs 10 \<and> 0 \<le> rate_07 \<and> rate_07 \<le> 1 \<and> (10::nat) < 2 ^ 53
   \<and> float_product rate_07 10 = 7
   \<and> train_idx_of example_rs rate_07 10 = [9, 8, 7, 6, 5, 4, 3]
   \<and> test_idx_of example_rs rate_07 10 = [2, 1, 0]
   \<and> set (train_idx_of example_rs rate_07 10) \<inter> set (test_idx_of example_rs rate_07 10) = {}
   \<and> length (train_idx_of example_rs rate_07 10) + length (test_idx_of example_rs rate_07 10)
       = 10
   \<and> int (length (train_idx_of example_rs rate_07 10)) = \<lfloor>float_product rate_07 10\<rfloor>"
proof -
  have ok: "permutation_ok example_rs 10"
    by (simp add: permutation_ok_def example_rs_def)
  have r: "0 \<le> rate_07" "rate_07 \<le> 1" by (simp_all add: rate_07_def)
  have n: "(10::nat) < 2 ^ 53" by simp
  have tr: "train_idx_of example_rs rate_07 10 = [9, 8, 7, 6, 5, 4, 3]"
    by (simp add: train_idx_of_def float_product_rate_07 slice_to_def py_int_def example_rs_def
        upt_conv_Cons)
  have te: "test_idx_of example_rs rate_07 10 = [2, 1, 0]"
    by (simp add: test_idx_of_def float_product_rate_07 slice_from_def py_int_def example_rs_def
        upt_conv_Cons)
  show ?thesis
    using ok r n tr te float_product_rate_07 splitter_partition [OF ok, of rate_07] by simp
qed

text \<open>
  Claim C4 as stated fails outside the unit interval: with one record and
  \<open>train_rate = 2\<close> the training part has one row, not \<open>floor(2 * 1) = 2\<close>.
\<close>

theorem splitter_count_counterexample:
  "permutation_ok example_rs 1
   \<and> int (length (train_idx_of example_rs 2 1)) \<noteq> \<lfloor>float_product 2 1\<rfloor>"
proof -
  have "round64 2 = 2" using round64_nat [of 2] by simp
  then have "float_product 2 1 = 2" by (simp add: float_product_def)
  then show ?thesis
    by (simp add: permutation_ok_def train_idx_of_def slice_to_def py_int_def example_rs_def)
qed

subsection \<open>Column access\<close>

lemma get_col_Inr: "get_col df f = Inr c \<longleftrightarrow> map_of df f = Some c"
  by (simp add: get_col_def split: option.splits)

lemma get_col_Inl: "(\<exists>e. get_col df f = Inl e) \<longleftrightarrow> f \<notin> fst ` set df"
  using map_of_eq_None_iff [of df f] by (cases "map_of df f") (auto simp: get_col_def)

lemma get_col_present: "f \<in> fst ` set df \<Longrightarrow> \<exists>c. get_col df f = Inr c"
  using get_col_Inl [of df f] by (cases "get_col df f") auto

lemma set_col_names: "f \<in> fst ` set df \<Longrightarrow> map fst (set_col df f c) = map fst df"
  by (auto simp: set_col_def)

lemma map_of_overwrite:
  "map_of (map (\<lambda>(n, old). if n = f then (n, c) else (n, old)) df) n =
     (if n = f then (if f \<in> fst ` set df then Some c else None) else map_of df n)"
  by (induction df) (auto split: if_splits)

lemma map_of_set_col:
  "f \<in> fst ` set df \<Longrightarrow> map_of (set_col df f c) n = (if n = f then Some c else map_of df n)"
  by (simp add: set_col_def map_of_overwrite)

lemma set_col_entry:
  "f \<in> fst ` set df \<Longrightarrow> j < length df \<Longrightarrow> fst (df ! j) \<noteq> f \<Longrightarrow> set_col df f c ! j = df ! j"
  by (auto simp: set_col_def split: prod.splits)

subsection \<open>The loop over columns\<close>

lemma for_each_columns:
  assumes step: "\<And>df f. step df f =
       (case get_col df f of Inl e \<Rightarrow> Inl e | Inr col \<Rightarrow> Inr (set_col df f (g col)))"
  shows "for_each step fs df = Inr df' \<Longrightarrow> distinct fs \<Longrightarrow>
         set fs \<subseteq> fst ` set df \<and> map fst df' = map fst df
         \<and> (\<forall>n. map_of df' n = (if n \<in> set fs then map_option g (map_of df n) else map_of df n))
         \<and> (\<forall>j<length df. fst (df ! j) \<notin> set fs \<longrightarrow> df' ! j = df ! j)"
proof (induction fs arbitrary: df)
  case Nil
  then show ?case by simp
next
  case (Cons f fs)
  obtain d1 where d1: "step df f = Inr d1" and rest1: "for_each step fs d1 = Inr df'"
    using Cons.prems(1) by (cases "step df f") auto
  obtain col where col: "get_col df f = Inr col" and d1eq: "d1 = set_col df f (g col)"
    using step [of df f] d1 by (cases "get_col df f") auto
  have rest: "for_each step fs (set_col df f (g col)) = Inr df'"
    using rest1 d1eq by simp
  have pres: "f \<in> fst ` set df"
    using col get_col_Inl [of df f] by auto
  let ?d1 = "set_col df f (g col)"
  have names1: "map fst ?d1 = map fst df" by (rule set_col_names [OF pres])
  have set1: "fst ` set ?d1 = fst ` set df"
    using names1 by (metis set_map)
  have len1: "length ?d1 = length df"
    using names1 by (metis length_map)
  from Cons.prems(2) have dfs: "distinct fs" and nf: "f \<notin> set fs" by auto
  note ih = Cons.IH [OF rest dfs]
  have a: "set (f # fs) \<subseteq> fst ` set df" using ih pres set1 by auto
  have b: "map fst df' = map fst df" using ih names1 by simp
  have c: "map_of df' n = (if n \<in> set (f # fs) then map_option g (map_of df n) else map_of df n)" for n
  proof -
    have "map_of df' n = (if n \<in> set fs then map_option g (map_of ?d1 n) else map_of ?d1 n)"
      using ih by blast
    then show ?thesis
      using nf col by (auto simp: map_of_set_col [OF pres] get_col_Inr)
  qed
  have d: "df' ! j = df ! j" if "j < length df" "fst (df ! j) \<notin> set (f # fs)" for j
  proof -
    have e1: "?d1 ! j = df ! j" using that by (simp add: set_col_entry [OF pres])
    have "df' ! j = ?d1 ! j" using ih that len1 e1 by simp
    then show ?thesis using e1 by simp
  qed
  from a b c d show ?case by blast
qed

lemma for_each_columns_ok:
  assumes step: "\<And>df f. step df f =
       (case get_col df f of Inl e \<Rightarrow> Inl e | Inr col \<Rightarrow> Inr (set_col df f (g col)))"
  shows "set fs \<subseteq> fst ` set df \<Longrightarrow> \<exists>df'. for_each step fs df = Inr df'"
proof (induction fs arbitrary: df)
  case Nil
  then show ?case by simp
next
  case (Cons f fs)
  then have pres: "f \<in> fst ` set df" by simp
  then obtain col where col: "get_col df f = Inr col"
    using get_col_present by blast
  have "fst ` set (set_col df f (g col)) = fst ` set df"
    using set_col_names [OF pres, of "g col"] by (metis set_map)
  then have "set fs \<subseteq> fst ` set (set_col df f (g col))" using Cons.prems by simp
  from Cons.IH [OF this] obtain df' where "for_each step fs (set_col df f (g col)) = Inr df'"
    by blast
  moreover have "step df f = Inr (set_col df f (g col))"
    using step [of df f] col by simp
  ultimately show ?case by simp
qed

subsection \<open>Mode\<close>

lemma set_nums: "set (nums col) = {v. Num v \<in> set col}"
  by (induction col) (auto simp: nums_def split: cell.splits)

lemma count_val_zero: "Num v \<notin> set col \<Longrightarrow> count_val col v = 0"
  by (auto simp: count_val_def filter_empty_conv)

lemma fold_max_Max: "fold max xs (0::nat) = Max (insert 0 (set xs))"
  using Max.set_eq_fold [of 0 xs] by simp

lemma set_modes:
  "set (modes col) =
     {v. Num v \<in> set col \<and> count_val col v = Max (insert 0 (count_val col ` {v. Num v \<in> set col}))}"
  by (auto simp: modes_def Let_def fold_max_Max set_nums)

lemma modes_nonempty:
  assumes "Num v \<in> set col"
  shows "modes col \<noteq> []"
proof -
  let ?S = "count_val col ` {v. Num v \<in> set col}"
  have fin: "finite ?S"
  proof -
    have "?S = count_val col ` set (nums col)" by (simp add: set_nums)
    then show ?thesis by simp
  qed
  have pos: "0 < count_val col v"
    using assms by (simp add: count_val_def filter_empty_conv)
  have inS: "count_val col v \<in> ?S" using assms by blast
  have "Max (insert 0 ?S) \<in> insert 0 ?S"
    using fin by (intro Max_in) auto
  moreover have "count_val col v \<le> Max (insert 0 ?S)"
    using fin inS by (intro Max_ge) auto
  ultimately have "Max (insert 0 ?S) \<in> ?S" using pos by auto
  then obtain w where "Num w \<in> set col" "count_val col w = Max (insert 0 ?S)" by auto
  then have "w \<in> set (modes col)" by (simp add: set_modes)
  then show ?thesis by auto
qed

lemma modes_head:
  assumes "modes col = m # ms"
  shows "Num m \<in> set col" and "count_val col v \<le> count_val col m"
    and "Num v \<in> set col \<Longrightarrow> count_val col v = count_val col m \<Longrightarrow> m \<le> v"
proof -
  let ?S = "count_val col ` {v. Num v \<in> set col}"
  have fin: "finite ?S"
  proof -
    have "?S = count_val col ` set (nums col)" by (simp add: set_nums)
    then show ?thesis by simp
  qed
  have "m \<in> set (modes col)" using assms by simp
  then have m: "Num m \<in> set col" and top: "count_val col m = Max (insert 0 ?S)"
    by (simp_all add: set_modes)
  show "Num m \<in> set col" by (rule m)
  show "count_val col v \<le> count_val col m"
  proof (cases "Num v \<in> set col")
    case True
    then have "count_val col v \<in> insert 0 ?S" by blast
    then show ?thesis using fin top by (simp add: Max_ge)
  next
    case False
    then show ?thesis by (simp add: count_val_zero)
  qed
  have srt: "sorted (modes col)" by (simp add: modes_def Let_def)
  show "m \<le> v" if "Num v \<in> set col" "count_val col v = count_val col m"
  proof -
    have "v \<in> set (modes col)" using that top by (simp add: set_modes)
    then show ?thesis using srt assms by auto
  qed
qed

lemma mode0_sentinel:
  assumes "Num v \<in> set col"
  shows "mode0 col = Inr (mode_value col)"
  using modes_nonempty [OF assms] by (simp add: mode0_def mode_value_def split: list.splits)

lemma apply_series_map:
  "(\<And>x. x \<in> set xs \<Longrightarrow> f x = Inr (g x)) \<Longrightarrow> apply_series f xs = Inr (map g xs)"
  by (induction xs) auto

lemma apply_series_mode:
  "apply_series (\<lambda>x. if x = Num 8 \<or> x = Num 9 then mode0 col else Inr x) col = Inr (mode_imputed col)"
  unfolding mode_imputed_def
  by (rule apply_series_map) (auto simp: mode0_sentinel)

lemma impute_mode_step:
  "impute_mode df f =
     (case get_col df f of Inl e \<Rightarrow> Inl e | Inr col \<Rightarrow> Inr (set_col df f (mode_imputed col)))"
  by (simp add: impute_mode_def apply_series_mode split: sum.splits)

lemma impute_mean_step:
  "impute_mean df f =
     (case get_col df f of Inl e \<Rightarrow> Inl e | Inr col \<Rightarrow> Inr (set_col df f (mean_imputed col)))"
  by (simp add: impute_mean_def mean_imputed_def Let_def split: sum.splits)

lemma distinct_medrisk: "distinct medrisk_list"
  by (simp add: medrisk_list_def)

lemma distinct_other: "distinct other_list"
  by (simp add: other_list_def)

lemma medrisk_other_disjoint: "f \<in> set medrisk_list \<Longrightarrow> f \<notin> set other_list"
  by (auto simp: medrisk_list_def other_list_def)

lemma imputation_columns:
  assumes "imputation df = Inr df'"
  shows "set medrisk_list \<subseteq> fst ` set df" and "set other_list \<subseteq> fst ` set df"
    and "map fst df' = map fst df"
    and "map_of df' n =
           (if n \<in> set medrisk_list then map_option mode_imputed (map_of df n)
            else if n \<in> set other_list then map_option mean_imputed (map_of df n)
            else map_of df n)"
    and "j < length df \<Longrightarrow> fst (df ! j) \<notin> set medrisk_list \<Longrightarrow> fst (df ! j) \<notin> set other_list
         \<Longrightarrow> df' ! j = df ! j"
proof -
  from assms obtain df1 where s1: "for_each impute_mode medrisk_list df = Inr df1"
    and s2: "for_each impute_mean other_list df1 = Inr df'"
    by (auto simp: imputation_def split: sum.splits)
  note f1 = for_each_columns [of impute_mode mode_imputed, OF impute_mode_step s1 distinct_medrisk]
  note f2 = for_each_columns [of impute_mean mean_imputed, OF impute_mean_step s2 distinct_other]
  have names1: "map fst df1 = map fst df" using f1 by blast
  then have set1: "fst ` set df1 = fst ` set df" by (metis set_map)
  have len1: "length df1 = length df" using names1 by (metis length_map)
  show "set medrisk_list \<subseteq> fst ` set df" using f1 by blast
  show "set other_list \<subseteq> fst ` set df" using f2 set1 by blast
  show "map fst df' = map fst df" using f2 names1 by simp
  have m1: "map_of df1 n = (if n \<in> set medrisk_list then map_option mode_imputed (map_of df n) else map_of df n)"
    using f1 by blast
  have m2: "map_of df' n = (if n \<in> set other_list then map_option mean_imputed (map_of df1 n) else map_of df1 n)"
    using f2 by blast
  show "map_of df' n =
           (if n \<in> set medrisk_list then map_option mode_imputed (map_of df n)
            else if n \<in> set other_list then map_option mean_imputed (map_of df n)
            else map_of df n)"
    using m1 m2 medrisk_other_disjoint [of n] by auto
  show "df' ! j = df ! j"
    if "j < length df" "fst (df ! j) \<notin> set medrisk_list" "fst (df ! j) \<notin> set other_list"
  proof -
    have e1: "df1 ! j = df ! j" using f1 that by blast
    have "df' ! j = df1 ! j" using f2 that len1 e1 by simp
    then show ?thesis using e1 by simp
  qed
qed

lemma imputation_ok:
  assumes "set medrisk_list \<subseteq> fst ` set df" and "set other_list \<subseteq> fst ` set df"
  shows "\<exists>df'. imputation df = Inr df'"
proof -
  obtain df1 where s1: "for_each impute_mode medrisk_list df = Inr df1"
    using for_each_columns_ok [of impute_mode mode_imputed, OF impute_mode_step assms(1)] by blast
  have "map fst df1 = map fst df"
    using for_each_columns [of impute_mode mode_imputed, OF impute_mode_step s1 distinct_medrisk] by blast
  then have "fst ` set df1 = fst ` set df" by (metis set_map)
  then have "set other_list \<subseteq> fst ` set df1" using assms(2) by simp
  then obtain df' where "for_each impute_mean other_list df1 = Inr df'"
    using for_each_columns_ok [of impute_mean mean_imputed, OF impute_mean_step] by blast
  then show ?thesis using s1 by (simp add: imputation_def)
qed

subsection \<open>Imputer\<close>

lemma nums_filter_non99:
  "nums (filter (\<lambda>c. c \<noteq> Num 99) col) = filter (\<lambda>v. v \<noteq> 99) (nums col)"
  by (induction col) (auto simp: nums_def split: cell.splits)

lemma series_mean_non99: "series_mean (filter (\<lambda>c. c \<noteq> Num 99) col) = mean_non99 col"
  by (simp add: series_mean_def mean_non99_def nums_filter_non99 Let_def)

lemma mean_imputed_eq:
  "mean_imputed col = map (\<lambda>x. if x = Num 99 then mean_non99 col else x) col"
  by (simp add: mean_imputed_def series_mean_non99)

lemma mode_value_char:
  assumes "Num 8 \<in> set col \<or> Num 9 \<in> set col"
  shows "\<exists>m. mode_value col = Num m \<and> Num m \<in> set col
           \<and> (\<forall>v. count_val col v \<le> count_val col m)
           \<and> (\<forall>v. Num v \<in> set col \<and> count_val col v = count_val col m \<longrightarrow> m \<le> v)"
proof -
  from assms obtain w where "Num w \<in> set col" by blast
  then have "modes col \<noteq> []" by (rule modes_nonempty)
  then obtain m ms where ms: "modes col = m # ms" by (cases "modes col") auto
  have "mode_value col = Num m" by (simp add: mode_value_def ms)
  then show ?thesis using modes_head [OF ms] by blast
qed

lemma twins3_imputation: "imputation (rename_columns twins3) = Inr twins3_imputed"
  by code_simp

text \<open>
  Claim C6.  The imputer replaces every 8 and 9 of a medical-risk column by the mode of
  the column as it was loaded, sentinels included (the most frequent value, the smallest
  one on a tie); it replaces every 99 of a continuous column by the mean of the values of
  that column other than 99; it leaves every other column, among them \<open>pldel\<close> and
  \<open>resstatb\<close>, and the order of the columns as they were.
\<close>

theorem imputer_columns:
  assumes "imputation df = Inr df'"
  shows "(\<forall>f\<in>set medrisk_list. \<exists>col. map_of df f = Some col
            \<and> map_of df' f = Some (map (\<lambda>x. if x = Num 8 \<or> x = Num 9 then mode_value col else x) col)
            \<and> (Num 8 \<in> set col \<or> Num 9 \<in> set col \<longrightarrow>
                 (\<exists>m. mode_value col = Num m \<and> Num m \<in> set col
                    \<and> (\<forall>v. count_val col v \<le> count_val col m)
                    \<and> (\<forall>v. Num v \<in> set col \<and> count_val col v = count_val col m \<longrightarrow> m \<le> v))))
       \<and> (\<forall>f\<in>set other_list. \<exists>col. map_of df f = Some col
            \<and> map_of df' f = Some (map (\<lambda>x. if x = Num 99 then mean_non99 col else x) col))
       \<and> (\<forall>n. n \<notin> set medrisk_list \<and> n \<notin> set other_list \<longrightarrow> map_of df' n = map_of df n)
       \<and> map_of df' ''pldel'' = map_of df ''pldel''
       \<and> map_of df' ''resstatb'' = map_of df ''resstatb''
       \<and> map fst df' = map fst df"
proof -
  note ic = imputation_columns [OF assms]
  have med: "\<exists>col. map_of df f = Some col
            \<and> map_of df' f = Some (map (\<lambda>x. if x = Num 8 \<or> x = Num 9 then mode_value col else x) col)
            \<and> (Num 8 \<in> set col \<or> Num 9 \<in> set col \<longrightarrow>
                 (\<exists>m. mode_value col = Num m \<and> Num m \<in> set col
                    \<and> (\<forall>v. count_val col v \<le> count_val col m)
                    \<and> (\<forall>v. Num v \<in> set col \<and> count_val col v = count_val col m \<longrightarrow> m \<le> v)))"
    if f: "f \<in> set medrisk_list" for f
  proof -
    from f ic(1) have "f \<in> fst ` set df" by blast
    then obtain col where col: "map_of df f = Some col"
      using get_col_present [of f df] by (auto simp: get_col_Inr)
    have "map_of df' f = Some (mode_imputed col)"
      using ic(4) [of f] f col by simp
    then show ?thesis
      using col mode_value_char [of col] by (auto simp: mode_imputed_def)
  qed
  have oth: "\<exists>col. map_of df f = Some col
            \<and> map_of df' f = Some (map (\<lambda>x. if x = Num 99 then mean_non99 col else x) col)"
    if f: "f \<in> set other_list" for f
  proof -
    from f ic(2) have "f \<in> fst ` set df" by blast
    then obtain col where col: "map_of df f = Some col"
      using get_col_present [of f df] by (auto simp: get_col_Inr)
    have "f \<notin> set medrisk_list" using f medrisk_other_disjoint by blast
    then have "map_of df' f = Some (mean_imputed col)"
      using ic(4) [of f] f col by simp
    then show ?thesis using col by (simp add: mean_imputed_eq)
  qed
  have rest: "map_of df' n = map_of df n" if "n \<notin> set medrisk_list \<and> n \<notin> set other_list" for n
    using ic(4) [of n] that by simp
  have p: "map_of df' ''pldel'' = map_of df ''pldel''"
    by (rule rest) (simp add: medrisk_list_def other_list_def)
  have r: "map_of df' ''resstatb'' = map_of df ''resstatb''"
    by (rule rest) (simp add: medrisk_list_def other_list_def)
  from med oth rest p r ic(3) show ?thesis by blast
qed

theorem imputer_columns_witness:
  "imputation (rename_columns twins3) = Inr twins3_imputed
   \<and> map_of twins3_imputed ''cardiac'' = Some [Num 0, Num 0, Num 0]
   \<and> map_of twins3_imputed ''cigar'' = Some [Num 0, Num 5, Num 10]
   \<and> map_of twins3_imputed ''resstatb'' = Some [Num 1, Num 2, Num 3]
   \<and> (\<exists>col. map_of (rename_columns twins3) ''chyper'' = Some col
        \<and> map_of twins3_imputed ''chyper''
            = Some (map (\<lambda>x. if x = Num 8 \<or> x = Num 9 then mode_value col else x) col))
   \<and> (\<exists>col. map_of (rename_columns twins3) ''wtgain'' = Some col
        \<and> map_of twins3_imputed ''wtgain''
            = Some (map (\<lambda>x. if x = Num 99 then mean_non99 col else x) col))
   \<and> map_of twins3_imputed ''pldel'' = map_of (rename_columns twins3) ''pldel''
   \<and> map fst twins3_imputed = map fst (rename_columns twins3)"
proof -
  have c: "map_of twins3_imputed ''cardiac'' = Some [Num 0, Num 0, Num 0]"
    and g: "map_of twins3_imputed ''cigar'' = Some [Num 0, Num 5, Num 10]"
    and r: "map_of twins3_imputed ''resstatb'' = Some [Num 1, Num 2, Num 3]"
    by (simp_all add: twins3_imputed_def)
  have m: "''chyper'' \<in> set medrisk_list" by (simp add: medrisk_list_def)
  have ot: "''wtgain'' \<in> set other_list" by (simp add: other_list_def)
  show ?thesis
    using imputer_columns [OF twins3_imputation] twins3_imputation c g r m ot by blast
qed




subsection \<open>Treatment probabilities\<close>

lemma half_bound:
  fixes eps a b u :: real
  assumes "0 \<le> eps" and "eps \<le> 1 / 8" and u: "u = 1 / 2 ^ 53"
    and a: "a = (1 - u) * ((1 - u) * (1 - eps))" and b: "b = (1 + u) * ((1 + u) * (1 + eps))"
  shows "b / (2 * a) \<le> 1 / 2 + 2 * eps + 1 / 2 ^ 50"
    and "1 / 2 - 2 * eps - 1 / 2 ^ 50 \<le> a / (2 * b)"
proof -
  define A :: real where "A = (1 + u) * (1 + u)"
  define B :: real where "B = (1 - u) * (1 - u)"
  define w :: real where "w = 2 / 2 ^ 50"
  define q where "q = eps * eps"
  define r where "r = w * eps"
  have a': "a = B * (1 - eps)" and b': "b = A * (1 + eps)"
    by (simp_all only: a b A_def B_def mult.assoc)
  have q: "0 \<le> q" "q \<le> eps / 8"
    using assms(1,2) mult_left_mono [of eps "1 / 8" eps] by (simp_all add: q_def)
  have r: "0 \<le> r" "r \<le> eps / 2"
    using assms(1) mult_right_mono [of w "1 / 2" eps] by (simp_all add: r_def w_def)
  have num: "0 < B" "0 < A" "A \<le> B * (1 + w)" "A \<le> 2 * B" "A * (1 - w) \<le> B" "B \<le> A"
    by (simp_all add: A_def B_def w_def u)
  have apos: "0 < a" using assms(2) num(1) by (simp add: a')
  have bpos: "0 < b" using assms(1) num(2) by (simp add: b' add_pos_nonneg)
  have ex1: "(1 - eps) * (1 + 4 * eps + w) = 1 + w + 3 * eps - r - 4 * q"
    by (simp add: q_def r_def algebra_simps)
  have ex2: "(1 + eps) * (1 - 4 * eps - w) = 1 - w - 3 * eps - r - 4 * q"
    by (simp add: q_def r_def algebra_simps)
  have "B * (1 + w + 2 * eps) \<le> B * (1 + w + 3 * eps - r - 4 * q)"
    using num(1) q r by (intro mult_left_mono) simp_all
  moreover have "A * eps \<le> (2 * B) * eps"
    using num(4) assms(1) by (rule mult_right_mono)
  moreover have "B * (1 + w + 2 * eps) = B * (1 + w) + (2 * B) * eps"
    by (simp add: algebra_simps)
  moreover have "A * (1 + eps) = A + A * eps" by (simp add: algebra_simps)
  ultimately have "A * (1 + eps) \<le> B * (1 + w + 3 * eps - r - 4 * q)"
    using num(3) by linarith
  then have "b \<le> a * (1 + 4 * eps + w)"
    unfolding a' b' by (simp only: mult.assoc ex1)
  then have "b / (2 * a) \<le> (1 + 4 * eps + w) / 2"
    using apos by (simp add: field_simps)
  then show "b / (2 * a) \<le> 1 / 2 + 2 * eps + 1 / 2 ^ 50" by (simp add: w_def)
  have "A * (1 - w - 3 * eps - r - 4 * q) \<le> A * (1 - w - 3 * eps)"
    using num(2) q r by (intro mult_left_mono) simp_all
  moreover have "B * eps \<le> A * eps"
    using num(6) assms(1) by (rule mult_right_mono)
  moreover have "A * (1 - w - 3 * eps) = A * (1 - w) - 3 * (A * eps)"
    by (simp add: algebra_simps)
  moreover have "B * (1 - eps) = B - B * eps" by (simp add: algebra_simps)
  moreover have "0 \<le> A * eps" using num(2) assms(1) by simp
  ultimately have "A * (1 - w - 3 * eps - r - 4 * q) \<le> B * (1 - eps)"
    using num(5) by linarith
  then have "b * (1 - 4 * eps - w) \<le> a"
    unfolding a' b' by (simp only: mult.assoc ex2)
  then have "(1 - 4 * eps - w) / 2 \<le> a / (2 * b)"
    using bpos by (simp add: field_simps)
  then show "1 / 2 - 2 * eps - 1 / 2 ^ 50 \<le> a / (2 * b)" by (simp add: w_def)
qed

lemma nums_map_Num [simp]: "nums (map Num vs) = vs"
  by (induction vs) (simp_all add: nums_def)

lemma all_num_map_Num [simp]: "list_all is_num (map Num vs)"
  by (induction vs) simp_all

lemma np_mean_Num:
  assumes "vs \<noteq> []" and "length vs < 2 ^ 53"
  shows "np_mean lib (map Num vs) = Num (round64 (add_reduce lib vs / real (length vs)))"
  using assms by (simp add: np_mean_def csum_def round64_nat)

lemma rescale_Num:
  assumes "np_mean lib (map Num vs) = Num m" and "round64 (2 * m) \<noteq> 0"
  shows "rescale lib (map Num vs) = map Num (map (\<lambda>v. round64 (v / round64 (2 * m))) vs)"
  using assms by (simp add: rescale_def)

lemma sum_list_bounds:
  fixes vs :: "real list"
  assumes "\<forall>v\<in>set vs. lo \<le> v \<and> v \<le> hi"
  shows "real (length vs) * lo \<le> sum_list vs \<and> sum_list vs \<le> real (length vs) * hi"
  using assms by (induction vs) (auto simp: algebra_simps intro: add_mono)

lemma sum_list_scaled_bounds:
  fixes f :: "real \<Rightarrow> real"
  assumes "\<forall>v\<in>set vs. k1 * (v / d) \<le> f v \<and> f v \<le> k2 * (v / d)"
  shows "k1 * (sum_list vs / d) \<le> sum_list (map f vs)
       \<and> sum_list (map f vs) \<le> k2 * (sum_list vs / d)"
  using assms
proof (induction vs)
  case Nil
  show ?case by simp
next
  case (Cons v vs)
  have e: "k1 * (sum_list (v # vs) / d) = k1 * (v / d) + k1 * (sum_list vs / d)"
    "k2 * (sum_list (v # vs) / d) = k2 * (v / d) + k2 * (sum_list vs / d)"
    by (simp_all add: add_divide_distrib distrib_left)
  have "k1 * (v / d) \<le> f v" "f v \<le> k2 * (v / d)" using Cons.prems by simp_all
  moreover have "k1 * (sum_list vs / d) \<le> sum_list (map f vs)"
    "sum_list (map f vs) \<le> k2 * (sum_list vs / d)"
    using Cons.IH Cons.prems by simp_all
  ultimately show ?case unfolding e by (simp add: add_mono)
qed

lemma rel_error_bounds:
  fixes s s0 eps :: real
  assumes "\<bar>s - s0\<bar> \<le> eps * s0"
  shows "(1 - eps) * s0 \<le> s" and "s \<le> (1 + eps) * s0"
proof -
  define z where "z = eps * s0"
  have c: "(1 - eps) * s0 = s0 - z" "(1 + eps) * s0 = s0 + z"
    by (simp_all add: algebra_simps z_def)
  have "\<bar>s - s0\<bar> \<le> z" using assms by (simp only: z_def)
  then show "(1 - eps) * s0 \<le> s" and "s \<le> (1 + eps) * s0"
    unfolding c by linarith+
qed

lemma mean_rescale_bound:
  assumes acc: "sum_accurate lib (length vs) eps" and e0: "0 \<le> eps" and e1: "eps \<le> 1 / 8"
    and ne: "vs \<noteq> []" and len: "length vs < 2 ^ 53"
    and rng: "\<forall>v\<in>set vs. 2 powi (- 1000) \<le> v \<and> v \<le> 1"
  shows "\<exists>M. np_mean lib (rescale lib (map Num vs)) = Num M
             \<and> \<bar>M - 1 / 2\<bar> \<le> 2 * eps + 1 / 2 ^ 50"
proof -
  define u :: real where "u = 1 / 2 ^ 53"
  define t :: real where "t = 2 powi (- 1022)"
  define c :: real where "c = 2 powi (- 1000)"
  have u: "0 < u" "u \<le> 1 / 16" by (simp_all add: u_def)
  have t: "0 < t" by (simp add: t_def powi_pos)
  have ct: "c = t * 2 ^ 22"
  proof -
    have "(2::real) powi (- 1000) = 2 powi (- 1022 + 22)" by simp
    also have "\<dots> = 2 powi (- 1022) * 2 powi 22" by (rule power_int_add) simp
    finally show ?thesis by (simp add: c_def t_def)
  qed
  have t1010: "2 powi (- 1010) = t * 2 ^ 12"
  proof -
    have "(2::real) powi (- 1010) = 2 powi (- 1022 + 12)" by simp
    also have "\<dots> = 2 powi (- 1022) * 2 powi 12" by (rule power_int_add) simp
    finally show ?thesis by (simp add: t_def)
  qed
  have c0: "0 < c" using t by (simp add: ct)
  define n where "n = real (length vs)"
  define S0 where "S0 = sum_list vs"
  define a where "a = S0 / n"
  define S where "S = add_reduce lib vs"
  define m where "m = round64 (S / n)"
  define d where "d = round64 (2 * m)"
  define qs where "qs = map (\<lambda>v. round64 (v / d)) vs"
  define Q where "Q = sum_list qs"
  define S1 where "S1 = add_reduce lib qs"
  define M where "M = round64 (S1 / n)"
  define l2 where "l2 = (1 - u) * (1 - eps)"
  define h2 where "h2 = (1 + u) * (1 + eps)"
  define al where "al = (1 - u) * l2"
  define be where "be = (1 + u) * h2"
  have n0: "0 < n" using ne by (simp add: n_def)
  have l2b: "3 / 4 \<le> l2"
  proof -
    have "(15 / 16) * (7 / 8) \<le> (1 - u) * (1 - eps)"
      using u e1 by (intro mult_mono) simp_all
    then show ?thesis by (simp add: l2_def)
  qed
  have h2b: "h2 \<le> 5 / 4"
  proof -
    have "(1 + u) * (1 + eps) \<le> (17 / 16) * (9 / 8)"
      using u e0 e1 by (intro mult_mono) simp_all
    then show ?thesis by (simp add: h2_def)
  qed
  have h2p: "0 < h2" using u e0 by (simp add: h2_def add_pos_nonneg)
  have alb: "1 / 2 \<le> al"
  proof -
    have "(15 / 16) * (3 / 4) \<le> (1 - u) * l2"
      using u l2b by (intro mult_mono) simp_all
    then show ?thesis by (simp add: al_def)
  qed
  have beb: "be \<le> 2"
  proof -
    have "(1 + u) * h2 \<le> (17 / 16) * (5 / 4)"
      using u h2b h2p by (intro mult_mono) simp_all
    then show ?thesis by (simp add: be_def)
  qed
  have bep: "0 < be" using u h2p by (simp add: be_def add_pos_pos)
  have alp: "0 < al" using alb by simp
  have S0b: "n * c \<le> S0" "S0 \<le> n * 1"
    using sum_list_bounds [of vs c 1] rng by (simp_all only: n_def S0_def c_def)
  have ab: "c \<le> a" "a \<le> 1"
    using S0b n0 by (simp_all add: a_def field_simps)
  have a0: "0 < a" using ab c0 by simp
  have vs1010: "\<forall>v\<in>set vs. 2 powi (- 1010) \<le> v"
  proof
    fix v assume "v \<in> set vs"
    then have "c \<le> v" using rng by (simp add: c_def)
    then show "2 powi (- 1010) \<le> v" using t unfolding t1010 ct by simp
  qed
  have "\<bar>S - S0\<bar> \<le> eps * S0"
    using acc vs1010 unfolding sum_accurate_def S_def S0_def by blast
  note Sb = rel_error_bounds [OF this]
  have Snb: "(1 - eps) * a \<le> S / n" "S / n \<le> (1 + eps) * a"
    using divide_right_mono [OF Sb(1), of n] divide_right_mono [OF Sb(2), of n] n0
    by (simp_all add: a_def)
  have Sn_t: "2 powi (- 1022) \<le> S / n"
  proof -
    have "(7 / 8) * c \<le> (1 - eps) * a"
      using e1 ab c0 by (intro mult_mono) simp_all
    then have "t \<le> S / n" using Snb(1) t unfolding ct by simp
    then show ?thesis by (simp only: t_def)
  qed
  have mb: "l2 * a \<le> m" "m \<le> h2 * a"
  proof -
    have "l2 * a = ((1 - eps) * a) * (1 - u)" by (simp add: l2_def)
    also have "\<dots> \<le> (S / n) * (1 - u)"
      using Snb(1) u by (intro mult_right_mono) simp_all
    also have "\<dots> \<le> m" unfolding m_def by (rule round64_u(1) [OF Sn_t u_def])
    finally show "l2 * a \<le> m" .
    have "m \<le> (S / n) * (1 + u)" unfolding m_def by (rule round64_u(2) [OF Sn_t u_def])
    also have "\<dots> \<le> ((1 + eps) * a) * (1 + u)"
      using Snb(2) u by (intro mult_right_mono) simp_all
    also have "\<dots> = h2 * a" by (simp add: h2_def)
    finally show "m \<le> h2 * a" .
  qed
  have la: "(3 / 4) * c \<le> l2 * a"
    using l2b ab c0 by (intro mult_mono) simp_all
  have m2_t: "2 powi (- 1022) \<le> 2 * m"
  proof -
    have "t \<le> 2 * m" using la mb(1) t unfolding ct by simp
    then show ?thesis by (simp only: t_def)
  qed
  have db: "al * (2 * a) \<le> d" "d \<le> be * (2 * a)"
  proof -
    have "al * (2 * a) = (2 * (l2 * a)) * (1 - u)" by (simp add: al_def)
    also have "\<dots> \<le> (2 * m) * (1 - u)"
      using mb(1) u by (intro mult_right_mono) simp_all
    also have "\<dots> \<le> d" unfolding d_def by (rule round64_u(1) [OF m2_t u_def])
    finally show "al * (2 * a) \<le> d" .
    have "d \<le> (2 * m) * (1 + u)" unfolding d_def by (rule round64_u(2) [OF m2_t u_def])
    also have "\<dots> \<le> (2 * (h2 * a)) * (1 + u)"
      using mb(2) u by (intro mult_right_mono) simp_all
    also have "\<dots> = be * (2 * a)" by (simp add: be_def)
    finally show "d \<le> be * (2 * a)" .
  qed
  have dp: "0 < d"
  proof -
    have "0 < al * (2 * a)" using alp a0 by simp
    then show ?thesis using db(1) by linarith
  qed
  have d4: "d \<le> 4"
  proof -
    have "be * (2 * a) \<le> 2 * (2 * 1)"
      using beb ab a0 bep by (intro mult_mono) simp_all
    from order_trans [OF db(2) this] show ?thesis by simp
  qed
  have vd: "c / 4 \<le> v / d" if "v \<in> set vs" for v
  proof -
    have "c \<le> v" using rng that by (simp add: c_def)
    then show ?thesis using c0 dp d4 by (intro frac_le) simp_all
  qed
  have vd_t: "2 powi (- 1022) \<le> v / d" if "v \<in> set vs" for v
  proof -
    have "t \<le> v / d" using vd [OF that] t unfolding ct by simp
    then show ?thesis by (simp only: t_def)
  qed
  have qv: "(1 - u) * (v / d) \<le> round64 (v / d) \<and> round64 (v / d) \<le> (1 + u) * (v / d)"
    if "v \<in> set vs" for v
    using round64_u [OF vd_t [OF that] u_def] by (simp add: mult.commute)
  have qs1010: "\<forall>q\<in>set qs. 2 powi (- 1010) \<le> q"
  proof
    fix q assume "q \<in> set qs"
    then obtain v where v: "v \<in> set vs" and q: "q = round64 (v / d)"
      by (auto simp: qs_def)
    have A: "(15 / 16) * (c / 4) \<le> (1 - u) * (v / d)"
      using u vd [OF v] c0 by (intro mult_mono) simp_all
    have B: "(1 - u) * (v / d) \<le> q" using qv [OF v] by (simp only: q)
    from order_trans [OF A B] have "(15 / 16) * (c / 4) \<le> q" .
    then show "2 powi (- 1010) \<le> q" using t unfolding t1010 ct by simp
  qed
  have Qb: "(1 - u) * (S0 / d) \<le> Q" "Q \<le> (1 + u) * (S0 / d)"
    using sum_list_scaled_bounds [of vs "1 - u" d "\<lambda>v. round64 (v / d)" "1 + u"] qv
    by (simp_all add: Q_def qs_def S0_def)
  have lq: "length qs = length vs" by (simp add: qs_def)
  have "\<bar>S1 - Q\<bar> \<le> eps * Q"
    using acc qs1010 lq unfolding sum_accurate_def S1_def Q_def by blast
  note S1b = rel_error_bounds [OF this]
  have S1c: "l2 * (S0 / d) \<le> S1" "S1 \<le> h2 * (S0 / d)"
  proof -
    have "l2 * (S0 / d) = (1 - eps) * ((1 - u) * (S0 / d))" by (simp add: l2_def)
    also have "\<dots> \<le> (1 - eps) * Q"
      using Qb(1) e1 by (intro mult_left_mono) simp_all
    also have "\<dots> \<le> S1" by (rule S1b(1))
    finally show "l2 * (S0 / d) \<le> S1" .
    have "S1 \<le> (1 + eps) * Q" by (rule S1b(2))
    also have "\<dots> \<le> (1 + eps) * ((1 + u) * (S0 / d))"
      using Qb(2) e0 by (intro mult_left_mono) simp_all
    also have "\<dots> = h2 * (S0 / d)" by (simp add: h2_def)
    finally show "S1 \<le> h2 * (S0 / d)" .
  qed
  have S1n: "l2 * (a / d) \<le> S1 / n" "S1 / n \<le> h2 * (a / d)"
    using divide_right_mono [OF S1c(1), of n] divide_right_mono [OF S1c(2), of n] n0
    by (simp_all add: a_def mult.commute [of n d])
  have ad: "c / 4 \<le> a / d" using ab c0 dp d4 by (intro frac_le) simp_all
  have S1n_t: "2 powi (- 1022) \<le> S1 / n"
  proof -
    have "(3 / 4) * (c / 4) \<le> l2 * (a / d)"
      using l2b ad c0 by (intro mult_mono) simp_all
    then have "t \<le> S1 / n" using S1n(1) t unfolding ct by simp
    then show ?thesis by (simp only: t_def)
  qed
  have Mb: "al * (a / d) \<le> M" "M \<le> be * (a / d)"
  proof -
    have "al * (a / d) = (l2 * (a / d)) * (1 - u)" by (simp add: al_def)
    also have "\<dots> \<le> (S1 / n) * (1 - u)"
      using S1n(1) u by (intro mult_right_mono) simp_all
    also have "\<dots> \<le> M" unfolding M_def by (rule round64_u(1) [OF S1n_t u_def])
    finally show "al * (a / d) \<le> M" .
    have "M \<le> (S1 / n) * (1 + u)" unfolding M_def by (rule round64_u(2) [OF S1n_t u_def])
    also have "\<dots> \<le> (h2 * (a / d)) * (1 + u)"
      using S1n(2) u by (intro mult_right_mono) simp_all
    also have "\<dots> = be * (a / d)" by (simp add: be_def)
    finally show "M \<le> be * (a / d)" .
  qed
  have adu: "a / d \<le> 1 / (2 * al)"
  proof -
    have "a * (2 * al) \<le> d" using db(1) by (simp add: mult_ac)
    then show ?thesis using dp alp by (simp add: field_simps)
  qed
  have adl: "1 / (2 * be) \<le> a / d"
  proof -
    have "d \<le> a * (2 * be)" using db(2) by (simp add: mult_ac)
    then show ?thesis using dp bep by (simp add: field_simps)
  qed
  have Mu: "M \<le> be / (2 * al)"
  proof -
    have "be * (a / d) \<le> be * (1 / (2 * al))"
      using adu bep by (intro mult_left_mono) simp_all
    then show ?thesis using Mb(2) by simp
  qed
  have Ml: "al / (2 * be) \<le> M"
  proof -
    have "al * (1 / (2 * be)) \<le> al * (a / d)"
      using adl alp by (intro mult_left_mono) simp_all
    then show ?thesis using Mb(1) by simp
  qed
  have al_eq: "al = (1 - u) * ((1 - u) * (1 - eps))" by (simp only: al_def l2_def)
  have be_eq: "be = (1 + u) * ((1 + u) * (1 + eps))" by (simp only: be_def h2_def)
  note hb = half_bound [OF e0 e1 u_def al_eq be_eq]
  have bound: "\<bar>M - 1 / 2\<bar> \<le> 2 * eps + 1 / 2 ^ 50"
    using hb Mu Ml by linarith
  have mean1: "np_mean lib (map Num vs) = Num m"
    using np_mean_Num [OF ne len, of lib] by (simp only: m_def S_def n_def)
  have d0: "round64 (2 * m) \<noteq> 0" using dp by (simp add: d_def)
  have resc: "rescale lib (map Num vs) = map Num qs"
    using rescale_Num [OF mean1 d0] by (simp only: qs_def d_def)
  have qne: "qs \<noteq> []" using ne by (simp add: qs_def)
  have "np_mean lib (map Num qs) = Num M"
    using np_mean_Num [OF qne, of lib] len by (simp only: lq M_def S1_def n_def)
  then show ?thesis using resc bound by simp
qed

lemma seq_sum_snoc: "seq_sum (vs @ [v]) = round64 (seq_sum vs + v)"
  by (simp add: seq_sum_def)

lemma seq_sum_bounds:
  assumes "\<forall>v\<in>set vs. 2 powi (- 1022) \<le> v" and u: "u = 1 / 2 ^ 53"
  shows "(1 - u) ^ length vs * sum_list vs \<le> seq_sum vs
       \<and> seq_sum vs \<le> (1 + u) ^ length vs * sum_list vs"
  using assms(1)
proof (induction vs rule: rev_induct)
  case Nil
  show ?case by (simp add: seq_sum_def)
next
  case (snoc v vs)
  define L where "L = (1 - u) ^ length vs"
  define H where "H = (1 + u) ^ length vs"
  define T where "T = sum_list vs"
  define s where "s = seq_sum vs"
  have u01: "0 \<le> u" "u \<le> 1" by (simp_all add: u)
  have IH: "L * T \<le> s" "s \<le> H * T"
    using snoc by (simp_all add: L_def H_def T_def s_def)
  have v: "2 powi (- 1022) \<le> v" using snoc.prems by simp
  have v0: "0 \<le> v" using v powi_pos [of "- 1022"] by linarith
  have T0: "0 \<le> T"
    unfolding T_def
  proof (rule sum_list_nonneg)
    fix x assume "x \<in> set vs"
    then have "2 powi (- 1022) \<le> x" using snoc.prems by simp
    then show "0 \<le> x" using powi_pos [of "- 1022"] by linarith
  qed
  have L: "0 \<le> L" "L \<le> 1"
    using u01 by (simp_all add: L_def power_le_one)
  have H: "1 \<le> H" using u01 by (simp add: H_def one_le_power)
  have s0: "0 \<le> s"
  proof -
    have "0 \<le> L * T" using L(1) T0 by simp
    then show ?thesis using IH(1) by linarith
  qed
  have y: "2 powi (- 1022) \<le> s + v" using s0 v by linarith
  note r = round64_u [OF y u]
  have Lv: "L * v \<le> v" using L v0 by (simp add: mult_left_le_one_le)
  have Hv: "v \<le> H * v" using H v0 by (simp add: mult_right_mono [of 1 H v, simplified])
  have "(1 - u) ^ length (vs @ [v]) * sum_list (vs @ [v]) = (L * T + L * v) * (1 - u)"
    by (simp add: L_def T_def algebra_simps)
  also have "\<dots> \<le> (s + v) * (1 - u)"
    using IH(1) Lv u01 by (intro mult_right_mono) simp_all
  also have "\<dots> \<le> round64 (s + v)" by (rule r(1))
  finally have lo: "(1 - u) ^ length (vs @ [v]) * sum_list (vs @ [v]) \<le> seq_sum (vs @ [v])"
    by (simp only: seq_sum_snoc s_def)
  have "round64 (s + v) \<le> (s + v) * (1 + u)" by (rule r(2))
  also have "\<dots> \<le> (H * T + H * v) * (1 + u)"
    using IH(2) Hv u01 by (intro mult_right_mono) simp_all
  also have "\<dots> = (1 + u) ^ length (vs @ [v]) * sum_list (vs @ [v])"
    by (simp add: H_def T_def algebra_simps)
  finally have hi: "seq_sum (vs @ [v]) \<le> (1 + u) ^ length (vs @ [v]) * sum_list (vs @ [v])"
    by (simp only: seq_sum_snoc s_def)
  from lo hi show ?case by simp
qed

lemma seq_sum_accurate4: "sum_accurate example_lib 4 (1 / 2 ^ 50)"
  unfolding sum_accurate_def
proof (intro allI impI)
  fix vs :: "real list"
  assume a: "length vs = 4 \<and> (\<forall>v\<in>set vs. 2 powi (- 1010) \<le> v)"
  define u :: real where "u = 1 / 2 ^ 53"
  define T where "T = sum_list vs"
  have le: "(2::real) powi (- 1022) \<le> 2 powi (- 1010)"
    by (rule power_int_increasing) simp_all
  have n: "\<forall>v\<in>set vs. 2 powi (- 1022) \<le> v"
  proof
    fix v assume "v \<in> set vs"
    then have "2 powi (- 1010) \<le> v" using a by simp
    then show "2 powi (- 1022) \<le> v" using le by linarith
  qed
  have T0: "0 \<le> T"
    unfolding T_def
  proof (rule sum_list_nonneg)
    fix x assume "x \<in> set vs"
    then have "2 powi (- 1022) \<le> x" using n by simp
    then show "0 \<le> x" using powi_pos [of "- 1022"] by linarith
  qed
  from seq_sum_bounds [OF n u_def] a
  have b: "(1 - u) ^ 4 * T \<le> seq_sum vs" "seq_sum vs \<le> (1 + u) ^ 4 * T"
    by (simp_all add: T_def)
  have c: "(1 - 1 / 2 ^ 50) \<le> (1 - u) ^ 4" "(1 + u) ^ 4 \<le> 1 + 1 / 2 ^ 50"
    by (simp_all add: u_def power4_eq_xxxx)
  have "(1 - 1 / 2 ^ 50) * T \<le> (1 - u) ^ 4 * T" "(1 + u) ^ 4 * T \<le> (1 + 1 / 2 ^ 50) * T"
    using c T0 by (simp_all only: mult_right_mono)
  with b have d: "(1 - 1 / 2 ^ 50) * T \<le> seq_sum vs" "seq_sum vs \<le> (1 + 1 / 2 ^ 50) * T"
    by linarith+
  define z where "z = 1 / 2 ^ 50 * T"
  have e: "(1 - 1 / 2 ^ 50) * T = T - z" "(1 + 1 / 2 ^ 50) * T = T + z"
    by (simp_all add: z_def algebra_simps)
  have "\<bar>seq_sum vs - T\<bar> \<le> z" using d unfolding e by linarith
  then show "\<bar>add_reduce example_lib vs - sum_list vs\<bar> \<le> 1 / 2 ^ 50 * sum_list vs"
    by (simp add: example_lib_def z_def T_def)
qed

lemma example_mean: "np_mean example_lib (map Num example_prob_temp) = Num (1 / 4)"
  by (simp add: np_mean_def csum_def example_lib_def)
    (simp add: example_prob_temp_def seq_sum_def round64_small_values)

lemma example_rescale:
  "rescale example_lib (map Num example_prob_temp)
     = [Num (1 / 4), Num (1 / 4), Num (1 / 4), Num (5 / 4)]"
  by (simp add: rescale_def example_mean) (simp add: example_prob_temp_def round64_small_values)

lemma example_rescaled_mean:
  "np_mean example_lib [Num (1 / 4), Num (1 / 4), Num (1 / 4), Num (5 / 4)] = Num (1 / 2)"
  by (simp add: np_mean_def csum_def example_lib_def seq_sum_def nums_def round64_small_values)

lemma round64_05_plus: "round64 (1 / 2 + prob_0505) = 2263058437468717 / 2251799813685248"
proof -
  have "round64 (1 / 2 + prob_0505)
      = 2 powi (0 - 52) * of_int (round_half_even ((1 / 2 + prob_0505) / 2 powi (0 - 52)))"
    by (rule round64_eval) (simp_all add: prob_0505_def powi_neg_numeral)
  also have "\<dots> = 2263058437468717 / 2251799813685248"
    by (simp add: prob_0505_def powi_neg_numeral round_half_even_def Let_def)
  finally show ?thesis .
qed

lemma round64_counterexample_values:
  "round64 (2263058437468717 / 4503599627370496) = 2263058437468717 / 4503599627370496"
  "round64 (2263058437468717 / 2251799813685248) = 2263058437468717 / 2251799813685248"
  "round64 (4481194402195379 / 9007199254740992) = 4481194402195379 / 9007199254740992"
  "round64 (9007199254740991 / 9007199254740992) = 9007199254740991 / 9007199254740992"
  "round64 (9007199254740991 / 18014398509481984) = 9007199254740991 / 18014398509481984"
  using round64_div_pow2 [of 2263058437468717 52] round64_div_pow2 [of 2263058437468717 51]
    round64_div_pow2 [of 4481194402195379 53] round64_div_pow2 [of 9007199254740991 53]
    round64_div_pow2 [of 9007199254740991 54]
  by simp_all

lemma counterexample_mean:
  "np_mean example_lib [Num (1 / 2), Num prob_0505] = Num (2263058437468717 / 4503599627370496)"
  by (simp add: np_mean_def csum_def nums_def example_lib_def seq_sum_def round64_05_plus
      round64_small_values round64_counterexample_values)

lemma counterexample_quotients:
  "round64 (1 / 2 / (2263058437468717 / 2251799813685248))
     = 4481194402195379 / 9007199254740992"
  "round64 (prob_0505 / (2263058437468717 / 2251799813685248))
     = 1131501213136403 / 2251799813685248"
proof -
  let ?d = "2263058437468717 / 2251799813685248 :: real"
  have "round64 (1 / 2 / ?d)
      = 2 powi (- 2 - 52) * of_int (round_half_even (1 / 2 / ?d / 2 powi (- 2 - 52)))"
    by (rule round64_eval) (simp_all add: powi_neg_numeral)
  also have "\<dots> = 4481194402195379 / 9007199254740992"
    by (simp add: powi_neg_numeral round_half_even_def Let_def)
  finally show "round64 (1 / 2 / ?d) = 4481194402195379 / 9007199254740992" .
  have "round64 (prob_0505 / ?d)
      = 2 powi (- 1 - 52) * of_int (round_half_even (prob_0505 / ?d / 2 powi (- 1 - 52)))"
    by (rule round64_eval) (simp_all add: prob_0505_def powi_neg_numeral)
  also have "\<dots> = 1131501213136403 / 2251799813685248"
    by (simp add: prob_0505_def powi_neg_numeral round_half_even_def Let_def)
  finally show "round64 (prob_0505 / ?d) = 1131501213136403 / 2251799813685248" .
qed

lemma counterexample_rescale:
  "rescale example_lib [Num (1 / 2), Num prob_0505]
     = [Num (4481194402195379 / 9007199254740992), Num (1131501213136403 / 2251799813685248)]"
proof -
  have "cmul (Num 2) (Num (2263058437468717 / 4503599627370496))
      = Num (2263058437468717 / 2251799813685248)"
    by (simp add: round64_counterexample_values)
  then show ?thesis
    unfolding rescale_def counterexample_mean
    by (simp only: list.map cdiv.simps counterexample_quotients) simp
qed

lemma counterexample_rescaled_mean:
  "np_mean example_lib
     [Num (4481194402195379 / 9007199254740992), Num (1131501213136403 / 2251799813685248)]
     = Num (9007199254740991 / 18014398509481984)"
  by (simp add: np_mean_def csum_def nums_def example_lib_def seq_sum_def
      round64_small_values round64_counterexample_values)

lemma clip1_le: "clip1 c = Num v \<Longrightarrow> v \<le> 1"
  by (cases c) (auto split: if_splits)

lemma rescale_entry:
  assumes "i < length ps" and "ps ! i = Num p" and "np_mean lib ps = Num m"
    and "round64 (2 * m) \<noteq> 0"
  shows "rescale lib ps ! i = Num (round64 (p / round64 (2 * m)))"
  using assms by (simp add: rescale_def)

lemma example_expit_0: "expit example_lib 0 = 1 / 2"
  by (simp add: example_lib_def)

text \<open>
  Claim C8, as the code has it.  The probabilities given to the Bernoulli sampler are
  \<open>prob_temp\<close> divided by twice its mean, then clipped: entry \<open>i\<close> of the quotient is the
  double nearest to \<open>p / (2 * m)\<close>, where \<open>m\<close> is the mean that \<open>np.mean\<close> returned and
  \<open>2 * m\<close> is rounded to a double; clipping replaces a value above 1 by 1 and keeps the
  others, so no probability exceeds 1.  The mean of the quotients before clipping is
  close to 1/2: when \<open>prob_temp\<close> holds fewer than \<open>2^53\<close> numbers between \<open>2^-1000\<close> and 1
  and the sum that \<open>np.mean\<close> takes has relative error at most \<open>eps \<le> 1/8\<close>, it differs
  from 1/2 by at most \<open>2 * eps + 2^-50\<close>.
\<close>

theorem treatment_probability:
  "prob_t_of lib rs x d = map clip1 (rescale lib (prob_temp_of lib rs x d))
   \<and> (case synthesize lib rs df of Inl e \<Rightarrow> Inl e | Inr s \<Rightarrow> Inr (t_of s))
       = (case potential_outcomes df of
            Inl e \<Rightarrow> Inl e
          | Inr potential_y \<Rightarrow>
              draw_treatment rs (prob_t_of lib rs (values_of df) (length df)))
   \<and> length (rescale lib ps) = length ps
   \<and> (\<forall>i p m. i < length ps \<and> ps ! i = Num p \<and> np_mean lib ps = Num m
          \<and> round64 (2 * m) \<noteq> 0
        \<longrightarrow> rescale lib ps ! i = Num (round64 (p / round64 (2 * m))))
   \<and> (\<forall>i v. i < length qs \<and> qs ! i = Num v \<longrightarrow> map clip1 qs ! i = Num (min v 1))
   \<and> (\<forall>i. i < length qs \<and> qs ! i = NaN \<longrightarrow> map clip1 qs ! i = NaN)
   \<and> (\<forall>v. Num v \<in> set (prob_t_of lib rs x d) \<longrightarrow> v \<le> 1)
   \<and> (sum_accurate lib (length vs) eps \<and> 0 \<le> eps \<and> eps \<le> 1 / 8
        \<and> vs \<noteq> [] \<and> length vs < 2 ^ 53 \<and> (\<forall>v\<in>set vs. 2 powi (- 1000) \<le> v \<and> v \<le> 1)
      \<longrightarrow> (\<exists>M. np_mean lib (rescale lib (map Num vs)) = Num M
                \<and> \<bar>M - 1 / 2\<bar> \<le> 2 * eps + 1 / 2 ^ 50))"
proof -
  have a: "prob_t_of lib rs x d = map clip1 (rescale lib (prob_temp_of lib rs x d))"
    by (simp add: prob_t_of_def)
  have b: "(case synthesize lib rs df of Inl e \<Rightarrow> Inl e | Inr s \<Rightarrow> Inr (t_of s))
       = (case potential_outcomes df of
            Inl e \<Rightarrow> Inl e
          | Inr potential_y \<Rightarrow>
              draw_treatment rs (prob_t_of lib rs (values_of df) (length df)))"
    by (simp add: synthesize_def Let_def split: sum.splits)
  have c: "length (rescale lib ps) = length ps"
    by (simp add: rescale_def)
  have e: "\<forall>i p m. i < length ps \<and> ps ! i = Num p \<and> np_mean lib ps = Num m
          \<and> round64 (2 * m) \<noteq> 0
        \<longrightarrow> rescale lib ps ! i = Num (round64 (p / round64 (2 * m)))"
    by (simp add: rescale_entry)
  have f: "\<forall>i v. i < length qs \<and> qs ! i = Num v \<longrightarrow> map clip1 qs ! i = Num (min v 1)"
    by (simp add: min_def)
  have g: "\<forall>i. i < length qs \<and> qs ! i = NaN \<longrightarrow> map clip1 qs ! i = NaN"
    by simp
  have h: "\<forall>v. Num v \<in> set (prob_t_of lib rs x d) \<longrightarrow> v \<le> 1"
    by (auto simp: prob_t_of_def dest: clip1_le [OF sym])
  have k: "\<exists>M. np_mean lib (rescale lib (map Num vs)) = Num M
                \<and> \<bar>M - 1 / 2\<bar> \<le> 2 * eps + 1 / 2 ^ 50"
    if "sum_accurate lib (length vs) eps \<and> 0 \<le> eps \<and> eps \<le> 1 / 8
        \<and> vs \<noteq> [] \<and> length vs < 2 ^ 53 \<and> (\<forall>v\<in>set vs. 2 powi (- 1000) \<le> v \<and> v \<le> 1)"
    using that by (intro mean_rescale_bound) simp_all
  show ?thesis
    by (intro conjI impI; (fact a | fact b | fact c | fact e | fact f | fact g | fact h | erule k))
qed

text \<open>
  The propensities 1/8, 1/8, 1/8, 5/8 have mean 1/4; divided by 1/2 they are 1/4, 1/4,
  1/4, 5/4, with mean 1/2, and the last one is clipped to 1.
\<close>

theorem treatment_probability_witness:
  "sum_accurate example_lib (length example_prob_temp) (1 / 2 ^ 50)
   \<and> np_mean example_lib (map Num example_prob_temp) = Num (1 / 4)
   \<and> rescale example_lib (map Num example_prob_temp)
       = [Num (1 / 4), Num (1 / 4), Num (1 / 4), Num (5 / 4)]
   \<and> rescale example_lib (map Num example_prob_temp) ! 3
       = Num (round64 (5 / 8 / round64 (2 * (1 / 4))))
   \<and> map clip1 (rescale example_lib (map Num example_prob_temp))
       = [Num (1 / 4), Num (1 / 4), Num (1 / 4), Num 1]
   \<and> map clip1 (rescale example_lib (map Num example_prob_temp)) ! 3 = Num (min (5 / 4) 1)
   \<and> np_mean example_lib (rescale example_lib (map Num example_prob_temp)) = Num (1 / 2)
   \<and> (\<exists>M. np_mean example_lib (rescale example_lib (map Num example_prob_temp)) = Num M
          \<and> \<bar>M - 1 / 2\<bar> \<le> 2 * (1 / 2 ^ 50) + 1 / 2 ^ 50)
   \<and> prob_t_of example_lib example_rs [[Num 25, Num 1], [Num 30, Num 2]] 2
       = [Num (1 / 2), Num (1 / 2)]
   \<and> (1 / 2 :: real) \<le> 1"
proof -
  let ?x = "[[Num 25, Num 1], [Num 30, Num 2]]"
  let ?ps = "map Num example_prob_temp"
  let ?qs = "rescale example_lib ?ps"
  note T = treatment_probability [of example_lib example_rs ?x 2 twins3_imputed ?ps ?qs
      example_prob_temp "1 / 2 ^ 50"]
  have len: "length example_prob_temp = 4" by (simp add: example_prob_temp_def)
  have acc: "sum_accurate example_lib (length example_prob_temp) (1 / 2 ^ 50)"
    by (simp only: len seq_sum_accurate4)
  have rng: "\<forall>v\<in>set example_prob_temp. 2 powi (- 1000) \<le> v \<and> v \<le> 1"
    by (simp add: example_prob_temp_def powi_neg_numeral)
  have ne: "example_prob_temp \<noteq> []" "length example_prob_temp < 2 ^ 53"
    by (simp_all add: example_prob_temp_def)
  have q3: "?qs ! 3 = Num (5 / 4)" "3 < length ?qs" by (simp_all add: example_rescale)
  have p3: "?ps ! 3 = Num (5 / 8)" "3 < length ?ps" by (simp_all add: example_prob_temp_def)
  have d0: "round64 (2 * (1 / 4)) \<noteq> 0" by simp
  note T4 = T [THEN conjunct2, THEN conjunct2, THEN conjunct2, THEN conjunct1, rule_format]
  note T5 = T [THEN conjunct2, THEN conjunct2, THEN conjunct2, THEN conjunct2, THEN conjunct1,
      rule_format]
  note T7 = T [THEN conjunct2, THEN conjunct2, THEN conjunct2, THEN conjunct2, THEN conjunct2,
      THEN conjunct2, THEN conjunct1, rule_format]
  note T8 = T [THEN conjunct2, THEN conjunct2, THEN conjunct2, THEN conjunct2, THEN conjunct2,
      THEN conjunct2, THEN conjunct2, rule_format]
  have r3: "?qs ! 3 = Num (round64 (5 / 8 / round64 (2 * (1 / 4))))"
    by (rule T4) (intro conjI, fact p3(2), fact p3(1), fact example_mean, fact d0)
  have c3: "map clip1 ?qs ! 3 = Num (min (5 / 4) 1)"
    by (rule T5) (intro conjI, fact q3(2), fact q3(1))
  have cl: "map clip1 ?qs = [Num (1 / 4), Num (1 / 4), Num (1 / 4), Num 1]"
    by (simp add: example_rescale)
  have m: "\<exists>M. np_mean example_lib ?qs = Num M \<and> \<bar>M - 1 / 2\<bar> \<le> 2 * (1 / 2 ^ 50) + 1 / 2 ^ 50"
    by (rule T8) (intro conjI, fact acc, simp, simp, fact ne(1), fact ne(2), fact rng)
  have m2: "np_mean example_lib ?qs = Num (1 / 2)"
    by (simp only: example_rescale example_rescaled_mean)
  have pt: "prob_temp_of example_lib example_rs ?x 2 = [Num (1 / 2), Num (1 / 2)]"
    by (simp add: prob_temp_of_def coef_of_def example_rs_def upt_conv_Cons)
      (simp add: example_lib_def seq_dot_def)
  have p: "prob_t_of example_lib example_rs ?x 2 = [Num (1 / 2), Num (1 / 2)]"
    by (simp add: prob_t_of_def pt rescale_def np_mean_def csum_def nums_def)
      (simp add: example_lib_def seq_sum_def round64_small_values)
  have "Num (1 / 2) \<in> set (prob_t_of example_lib example_rs ?x 2)"
    by (simp add: p)
  then have le: "(1 / 2 :: real) \<le> 1" by (rule T7)
  show ?thesis
    by (intro conjI) (fact acc example_mean example_rescale r3 cl c3 m2 m p le)+
qed

text \<open>
  Claim C8 as stated fails: the mean is not exactly 1/2.  For the two propensities 0.5
  and 0.5049998333399998 the quotients are 0.4975125203138674 and 0.5024874796861325, and
  their mean is the double 0.49999999999999994.
\<close>

theorem treatment_probability_counterexample:
  "np_mean example_lib (rescale example_lib [Num (1 / 2), Num prob_0505])
     = Num (9007199254740991 / 18014398509481984)
   \<and> np_mean example_lib (rescale example_lib [Num (1 / 2), Num prob_0505]) \<noteq> Num (1 / 2)"
  by (simp add: counterexample_rescale counterexample_rescaled_mean)

subsection \<open>Stages of the pipeline\<close>

lemma take_rows_Inr:
  "take_rows a idx = Inr b \<longleftrightarrow> list_all (\<lambda>i. i < length a) idx \<and> b = map (\<lambda>i. a ! i) idx"
  by (auto simp: take_rows_def)

lemma split_Inr:
  assumes "split rs r s = Inr res"
  shows "train_x res = map (\<lambda>i. x_of s ! i) (train_idx_of rs r (length (x_of s)))"
    and "train_t res = map (\<lambda>i. t_of s ! i) (train_idx_of rs r (length (x_of s)))"
    and "train_y res = map (\<lambda>i. y_of s ! i) (train_idx_of rs r (length (x_of s)))"
    and "train_potential_y res
           = map (\<lambda>i. potential_y_of s ! i) (train_idx_of rs r (length (x_of s)))"
    and "test_x res = map (\<lambda>i. x_of s ! i) (test_idx_of rs r (length (x_of s)))"
    and "test_potential_y res
           = map (\<lambda>i. potential_y_of s ! i) (test_idx_of rs r (length (x_of s)))"
    and "list_all (\<lambda>i. i < length (x_of s)) (train_idx_of rs r (length (x_of s)))"
    and "list_all (\<lambda>i. i < length (x_of s)) (test_idx_of rs r (length (x_of s)))"
  using assms by (auto simp: split_def Let_def take_rows_Inr split: sum.splits if_splits)

lemma split_in_range_all:
  assumes "split rs r s = Inr res"
  shows "\<forall>i\<in>set (train_idx_of rs r (length (x_of s))).
           i < length (y_of s) \<and> i < length (t_of s) \<and> i < length (potential_y_of s)"
  using assms
  by (auto simp: split_def Let_def take_rows_Inr list_all_iff split: sum.splits if_splits)

lemma split_ok:
  assumes "permutation_ok rs (length (x_of s))"
    and "length (t_of s) = length (x_of s)" and "length (y_of s) = length (x_of s)"
    and "length (potential_y_of s) = length (x_of s)"
    and "\<not> overflows64 (real (length (x_of s)))"
    and "\<not> overflows64 (r * round64 (real (length (x_of s))))"
  shows "\<exists>res. split rs r s = Inr res"
proof -
  let ?no = "length (x_of s)"
  have p: "set (permutation rs ?no) = {0..<?no}"
    by (rule permutation_ok_props(3) [OF assms(1)])
  have "set (train_idx_of rs r ?no) \<subseteq> set (permutation rs ?no)"
    by (auto simp: train_idx_of_def slice_to_def dest: in_set_takeD)
  then have tr: "list_all (\<lambda>i. i < ?no) (train_idx_of rs r ?no)"
    using p by (auto simp: list_all_iff)
  have "set (test_idx_of rs r ?no) \<subseteq> set (permutation rs ?no)"
    by (auto simp: test_idx_of_def slice_from_def dest: in_set_dropD)
  then have te: "list_all (\<lambda>i. i < ?no) (test_idx_of rs r ?no)"
    using p by (auto simp: list_all_iff)
  show ?thesis
    using tr te assms(2-6) by (simp add: split_def Let_def take_rows_def)
qed

lemma preprocess_Inr:
  assumes "preprocess lib rs raw r = Inr res"
  shows "\<exists>df df_new s. imputation (rename_columns raw) = Inr df \<and> build_df_new df = Inr df_new
           \<and> synthesize lib rs df = Inr s \<and> split rs r s = Inr res"
  using assms by (auto simp: preprocess_def split: sum.splits)

lemma length_values_of: "length (values_of df) = nrows df"
  by (simp add: values_of_def)

lemma values_of_row: "i < nrows df \<Longrightarrow> values_of df ! i = map (\<lambda>(n, c). c ! i) df"
  by (simp add: values_of_def)

lemma potential_outcomes_Inr:
  assumes "potential_outcomes df = Inr py"
  shows "\<exists>c0 c1. map_of df ''outcome(t=0)'' = Some c0 \<and> map_of df ''outcome(t=1)'' = Some c1
           \<and> py = map (\<lambda>i. [below_9999 (c0 ! i), below_9999 (c1 ! i)]) [0..<length c0]"
  using assms
  by (auto simp: potential_outcomes_def label_list_def get_col_def values_of_def nrows_def
      split: sum.splits option.splits)

lemma draw_treatment_Inr:
  "draw_treatment rs ps = Inr t \<Longrightarrow> length t = length ps
     \<and> (\<forall>i<length t. t ! i = binomial rs i (prob_value (ps ! i)))"
  by (auto simp: draw_treatment_def split: if_splits)

lemma length_prob_temp: "length (prob_temp_of lib rs x d) = length x"
  by (simp add: prob_temp_of_def)

lemma length_prob_t: "length (prob_t_of lib rs x d) = length x"
  by (simp add: prob_t_of_def rescale_def length_prob_temp)

lemma synthesize_Inr:
  assumes "synthesize lib rs df = Inr s"
  shows "x_of s = values_of df" and "potential_outcomes df = Inr (potential_y_of s)"
    and "draw_treatment rs (prob_t_of lib rs (values_of df) (length df)) = Inr (t_of s)"
    and "y_of s = observed (t_of s) (potential_y_of s)"
  using assms by (auto simp: synthesize_def Let_def split: sum.splits)

lemma synthesize_lengths:
  assumes "synthesize lib rs df = Inr s"
  shows "length (x_of s) = nrows df" and "length (t_of s) = nrows df"
  using synthesize_Inr [OF assms] draw_treatment_Inr [of rs _ "t_of s"]
  by (simp_all add: length_values_of length_prob_t)

lemma length_mode_imputed: "length (mode_imputed col) = length col"
  by (simp add: mode_imputed_def)

lemma length_mean_imputed: "length (mean_imputed col) = length col"
  by (simp add: mean_imputed_def)

lemma rename_columns_props:
  "length (rename_columns raw) = length raw" "nrows (rename_columns raw) = nrows raw"
  "map snd (rename_columns raw) = map snd raw"
  by (auto simp: rename_columns_def nrows_def split: list.splits prod.splits)

subsection \<open>Column lengths through the imputer\<close>

lemma for_each_invariant:
  assumes "\<And>s x s'. I s \<Longrightarrow> f s x = Inr s' \<Longrightarrow> I s'"
  shows "I s \<Longrightarrow> for_each f xs s = Inr s' \<Longrightarrow> I s'"
proof (induction xs arbitrary: s)
  case Nil
  then show ?case by simp
next
  case (Cons x xs)
  from Cons.prems(2) obtain s1 where s1: "f s x = Inr s1" and rest: "for_each f xs s1 = Inr s'"
    by (cases "f s x") auto
  from assms [OF Cons.prems(1) s1] have "I s1" .
  from Cons.IH [OF this rest] show ?case .
qed

lemma set_col_lengths:
  assumes "get_col df f = Inr col" and "\<forall>c\<in>snd ` set df. length c = n"
    and "length c' = length col"
  shows "\<forall>c\<in>snd ` set (set_col df f c'). length c = n"
proof -
  have "(f, col) \<in> set df"
    using assms(1) by (auto simp: get_col_Inr dest: map_of_SomeD)
  then have "length col = n" using assms(2) by force
  then have "length c' = n" using assms(3) by simp
  moreover have "f \<in> fst ` set df"
    using \<open>(f, col) \<in> set df\<close> by force
  ultimately show ?thesis
    using assms(2) by (auto simp: set_col_def split: if_splits)
qed

lemma impute_mode_lengths:
  assumes "\<forall>c\<in>snd ` set df. length c = n" and "impute_mode df f = Inr df'"
  shows "\<forall>c\<in>snd ` set df'. length c = n"
proof -
  from assms(2) obtain col where col: "get_col df f = Inr col"
    and eq: "df' = set_col df f (mode_imputed col)"
    by (cases "get_col df f") (auto simp: impute_mode_step)
  show ?thesis
    unfolding eq by (rule set_col_lengths [OF col assms(1)]) (simp add: length_mode_imputed)
qed

lemma impute_mean_lengths:
  assumes "\<forall>c\<in>snd ` set df. length c = n" and "impute_mean df f = Inr df'"
  shows "\<forall>c\<in>snd ` set df'. length c = n"
proof -
  from assms(2) obtain col where col: "get_col df f = Inr col"
    and eq: "df' = set_col df f (mean_imputed col)"
    by (cases "get_col df f") (auto simp: impute_mean_step)
  show ?thesis
    unfolding eq by (rule set_col_lengths [OF col assms(1)]) (simp add: length_mean_imputed)
qed

lemma imputation_lengths:
  assumes "imputation df = Inr df'" and "\<forall>c\<in>snd ` set df. length c = nrows df"
  shows "\<forall>c\<in>snd ` set df'. length c = nrows df" and "nrows df' = nrows df"
proof -
  from assms(1) obtain df1 where s1: "for_each impute_mode medrisk_list df = Inr df1"
    and s2: "for_each impute_mean other_list df1 = Inr df'"
    by (auto simp: imputation_def split: sum.splits)
  have mid: "\<forall>c\<in>snd ` set df1. length c = nrows df"
    by (rule for_each_invariant [where I = "\<lambda>d. \<forall>c\<in>snd ` set d. length c = nrows df",
          OF impute_mode_lengths assms(2) s1])
  show all: "\<forall>c\<in>snd ` set df'. length c = nrows df"
    by (rule for_each_invariant [where I = "\<lambda>d. \<forall>c\<in>snd ` set d. length c = nrows df",
          OF impute_mean_lengths mid s2])
  have names: "map fst df' = map fst df" by (rule imputation_columns(3) [OF assms(1)])
  show "nrows df' = nrows df"
  proof (cases df')
    case Nil
    then have "df = []" using names by simp
    then show ?thesis using Nil by simp
  next
    case (Cons a rest)
    then have "length (snd a) = nrows df" using all by simp
    moreover have "nrows df' = length (snd a)"
      by (cases a) (simp add: nrows_def Cons)
    ultimately show ?thesis by simp
  qed
qed

subsection \<open>Rows and outcomes\<close>

lemma observed_nth:
  "i < length (observed t py) \<Longrightarrow>
     observed t py ! i = t ! i * (py ! i ! 1) + (1 - t ! i) * (py ! i ! 0)"
  by (simp add: observed_def)

lemma length_observed: "length (observed t py) = min (length t) (length py)"
  by (simp add: observed_def)

lemma potential_row_select:
  assumes "row = [a, b]" and "t = 0 \<or> t = (1::int)"
  shows "t * (row ! 1) + (1 - t) * (row ! 0) = row ! nat t"
  using assms by auto

lemma rows_of_permutation:
  assumes "mset p = mset [0..<length a]"
  shows "mset (map (\<lambda>i. a ! i) p) = mset a"
proof -
  have "mset (map (\<lambda>i. a ! i) p) = image_mset (\<lambda>i. a ! i) (mset p)" by simp
  also have "\<dots> = image_mset (\<lambda>i. a ! i) (mset [0..<length a])" by (simp only: assms)
  also have "\<dots> = mset (map (\<lambda>i. a ! i) [0..<length a])" by simp
  also have "map (\<lambda>i. a ! i) [0..<length a] = a" by (rule map_nth)
  finally show ?thesis .
qed

lemma label_not_imputed:
  "f \<in> set label_list \<Longrightarrow> f \<notin> set medrisk_list \<and> f \<notin> set other_list"
  by (auto simp: label_list_def medrisk_list_def other_list_def)

lemma rename_columns_nth:
  "j < length raw \<Longrightarrow> rename_columns raw ! j = (clean_label (fst (raw ! j)), snd (raw ! j))"
  by (simp add: rename_columns_def split: prod.splits)

subsection \<open>Outcomes\<close>

lemma binomial_ok_example: "binomial_ok example_rs"
  by (simp add: binomial_ok_def example_rs_def)

lemma permutation_ok_example: "permutation_ok example_rs n"
  by (simp add: permutation_ok_def example_rs_def)

lemma nrows_twins3: "nrows twins3 = 3"
  by (simp add: nrows_def twins3_def)

lemma treatment_binary:
  assumes "draw_treatment rs ps = Inr t" and "binomial_ok rs" and "i < length t"
  shows "t ! i = 0 \<or> t ! i = 1"
  using draw_treatment_Inr [OF assms(1)] assms(2,3) by (auto simp: binomial_ok_def)

lemma twins3_potential_outcomes:
  "potential_outcomes twins3_imputed = Inr [[0, 0], [1, 0], [0, 1]]"
  by code_simp

lemma twins3_build_df_new: "build_df_new twins3_imputed = Inr twins3_df_new"
  by code_simp

lemma seq_dot_zero:
  assumes "list_all is_num row" and "\<forall>c\<in>set coef. c = Num 0"
  shows "seq_dot row coef = Num 0"
  unfolding seq_dot_def using assms
proof (induction row arbitrary: coef)
  case Nil
  show ?case by simp
next
  case (Cons a row)
  show ?case
  proof (cases coef)
    case Nil
    then show ?thesis by simp
  next
    case (Cons c cs)
    obtain v where v: "a = Num v" using Cons.prems(1) by (cases a) auto
    have c: "c = Num 0" using Cons.prems(2) Cons by simp
    have "foldl (\<lambda>acc (a, b). cadd acc (cmul a b)) (Num 0) (zip row cs) = Num 0"
      using Cons.prems Cons by (intro Cons.IH) simp_all
    then show ?thesis by (simp add: Cons v c)
  qed
qed

lemma twins3_values_num: "list_all (list_all is_num) (values_of twins3_imputed)"
  by code_simp

lemma nrows_twins3_imputed: "nrows twins3_imputed = 3"
  by (simp add: nrows_def twins3_imputed_def)

lemma twins3_prob_temp:
  "prob_temp_of example_lib example_rs (values_of twins3_imputed) d
     = [Num (1 / 2), Num (1 / 2), Num (1 / 2)]"
proof -
  let ?x = "values_of twins3_imputed"
  have l: "length ?x = 3" by (simp add: length_values_of nrows_twins3_imputed)
  have z: "\<forall>c\<in>set (coef_of example_rs d). c = Num 0"
    by (auto simp: coef_of_def example_rs_def)
  have e: "cexpit example_lib
             (cadd (matmul_entry example_lib ?x (coef_of example_rs d) i)
                (Num (normal example_rs i))) = Num (1 / 2)" if "i < 3" for i
  proof -
    have "list_all is_num (?x ! i)"
      using twins3_values_num that l by (simp add: list_all_length)
    from seq_dot_zero [OF this z]
    have "matmul_entry example_lib ?x (coef_of example_rs d) i = Num 0"
      by (simp add: example_lib_def)
    moreover have "normal example_rs i = 0" by (simp add: example_rs_def)
    ultimately show ?thesis by (simp add: example_expit_0)
  qed
  have "[0..<3] = [0, 1, 2]" by (simp add: upt_conv_Cons)
  then show ?thesis by (simp add: prob_temp_of_def l e)
qed

lemma twins3_prob_t:
  "prob_t_of example_lib example_rs (values_of twins3_imputed) d
     = [Num (1 / 2), Num (1 / 2), Num (1 / 2)]"
proof -
  have a: "round64 (3 / 2) = 3 / 2" "round64 3 = 3"
    using round64_div_pow2 [of 3 1] round64_nat [of 3] by simp_all
  have m: "np_mean example_lib [Num (1 / 2), Num (1 / 2), Num (1 / 2)] = Num (1 / 2)"
    by (simp add: np_mean_def csum_def nums_def example_lib_def seq_sum_def a)
  show ?thesis
    by (simp add: prob_t_of_def twins3_prob_temp rescale_def m)
qed

lemma twins3_synthesize:
  "synthesize example_lib example_rs twins3_imputed
     = Inr \<lparr>x_of = values_of twins3_imputed, potential_y_of = [[0, 0], [1, 0], [0, 1]],
            t_of = [1, 0, 0], y_of = [0, 1, 0]\<rparr>"
proof -
  have "draw_treatment example_rs [Num (1 / 2), Num (1 / 2), Num (1 / 2)] = Inr [1, 0, 0]"
    by (simp add: draw_treatment_def example_rs_def upt_conv_Cons)
  then show ?thesis
    by (simp add: synthesize_def Let_def twins3_potential_outcomes twins3_prob_t observed_def)
qed

lemma round64_rate_08: "round64 (rate_08 * 3) = 1351079888211149 / 562949953421312"
proof -
  have "round64 (rate_08 * 3)
      = 2 powi (1 - 52) * of_int (round_half_even (rate_08 * 3 / 2 powi (1 - 52)))"
    by (rule round64_eval) (simp_all add: rate_08_def powi_neg_numeral)
  also have "\<dots> = 1351079888211149 / 562949953421312"
    by (simp add: rate_08_def powi_neg_numeral round_half_even_def Let_def)
  finally show ?thesis .
qed

lemma twins3_idx:
  "train_idx_of example_rs rate_08 3 = [2, 1]" "test_idx_of example_rs rate_08 3 = [0]"
proof -
  have a: "round64 3 = 3" using round64_nat [of 3] by simp
  have f: "float_product rate_08 3 = 1351079888211149 / 562949953421312"
    by (simp add: float_product_def a round64_rate_08)
  show "train_idx_of example_rs rate_08 3 = [2, 1]"
    by (simp add: train_idx_of_def f slice_to_def py_int_def example_rs_def upt_conv_Cons)
  show "test_idx_of example_rs rate_08 3 = [0]"
    by (simp add: test_idx_of_def f slice_from_def py_int_def example_rs_def upt_conv_Cons)
qed

lemma twins3_preprocess:
  "preprocess example_lib example_rs twins3 rate_08
     = Inr \<lparr>train_x = [values_of twins3_imputed ! 2, values_of twins3_imputed ! 1],
            train_t = [0, 0], train_y = [0, 1], train_potential_y = [[0, 1], [1, 0]],
            test_x = [values_of twins3_imputed ! 0], test_potential_y = [[0, 0]]\<rparr>"
proof -
  have a: "round64 3 = 3" using round64_nat [of 3] by simp
  have l: "length (values_of twins3_imputed) = 3"
    by (simp add: length_values_of nrows_twins3_imputed)
  have o: "\<not> overflows64 3" "\<not> overflows64 (rate_08 * 3)"
    by (simp_all add: overflows64_def a round64_rate_08)
  show ?thesis
    by (simp add: preprocess_def twins3_imputation twins3_build_df_new twins3_synthesize
        split_def Let_def l a o twins3_idx take_rows_def)
qed

lemma twins3_run:
  "\<exists>res s. preprocess example_lib example_rs twins3 rate_08 = Inr res
     \<and> synthesize example_lib example_rs twins3_imputed = Inr s
     \<and> x_of s = values_of twins3_imputed
     \<and> potential_y_of s = [[0, 0], [1, 0], [0, 1]]
     \<and> t_of s = [1, 0, 0] \<and> y_of s = [0, 1, 0]
     \<and> train_x res = [values_of twins3_imputed ! 2, values_of twins3_imputed ! 1]
     \<and> train_t res = [0, 0] \<and> train_y res = [0, 1]
     \<and> train_potential_y res = [[0, 1], [1, 0]]
     \<and> test_x res = [values_of twins3_imputed ! 0]
     \<and> test_potential_y res = [[0, 0]]"
  by (simp add: twins3_preprocess twins3_synthesize)

text \<open>
  Claim C3.  When \<open>preprocess\<close> returns, the vectors it held before the split satisfy
  \<open>y[i] = t[i] * potential_y[i,1] + (1 - t[i]) * potential_y[i,0]\<close> at every index, and
  \<open>y[i] = potential_y[i, t[i]]\<close> since a Bernoulli draw is 0 or 1; \<open>y\<close> has one entry
  for each record when the columns of the table have equal lengths.  The same two
  equations hold for every row of \<open>train_y\<close> with \<open>train_t\<close> and \<open>train_potential_y\<close>.
\<close>

theorem observed_outcome:
  assumes "preprocess lib rs raw r = Inr res"
  shows "\<exists>df s. imputation (rename_columns raw) = Inr df \<and> synthesize lib rs df = Inr s
     \<and> (\<forall>i<length (y_of s).
           y_of s ! i = t_of s ! i * (potential_y_of s ! i ! 1)
                        + (1 - t_of s ! i) * (potential_y_of s ! i ! 0))
     \<and> (binomial_ok rs \<longrightarrow>
           (\<forall>i<length (y_of s). y_of s ! i = potential_y_of s ! i ! nat (t_of s ! i)))
     \<and> ((\<forall>c\<in>snd ` set raw. length c = nrows raw) \<longrightarrow> length (y_of s) = nrows raw)
     \<and> length (train_t res) = length (train_y res)
     \<and> length (train_potential_y res) = length (train_y res)
     \<and> (\<forall>j<length (train_y res).
           train_y res ! j = train_t res ! j * (train_potential_y res ! j ! 1)
                             + (1 - train_t res ! j) * (train_potential_y res ! j ! 0))
     \<and> (binomial_ok rs \<longrightarrow>
           (\<forall>j<length (train_y res).
              train_y res ! j = train_potential_y res ! j ! nat (train_t res ! j)))"
proof -
  from preprocess_Inr [OF assms] obtain df s
    where df: "imputation (rename_columns raw) = Inr df"
      and s: "synthesize lib rs df = Inr s" and sp: "split rs r s = Inr res"
    by blast
  note sy = synthesize_Inr [OF s]
  let ?t = "t_of s" and ?y = "y_of s" and ?py = "potential_y_of s"
  have ly: "length ?y = min (length ?t) (length ?py)"
    by (simp add: sy(4) length_observed)
  have eq1: "?y ! i = ?t ! i * (?py ! i ! 1) + (1 - ?t ! i) * (?py ! i ! 0)"
    if "i < length ?y" for i
    using that by (simp add: sy(4) observed_nth)
  from potential_outcomes_Inr [OF sy(2)] obtain c0 c1
    where c0: "map_of df ''outcome(t=0)'' = Some c0"
      and py: "?py = map (\<lambda>i. [below_9999 (c0 ! i), below_9999 (c1 ! i)]) [0..<length c0]"
    by blast
  have eq2: "?y ! i = ?py ! i ! nat (?t ! i)" if "i < length ?y" "binomial_ok rs" for i
  proof -
    have i: "i < length ?t" "i < length ?py" using that(1) ly by simp_all
    have "?t ! i = 0 \<or> ?t ! i = 1"
      by (rule treatment_binary [OF sy(3) that(2) i(1)])
    moreover have "?py ! i = [below_9999 (c0 ! i), below_9999 (c1 ! i)]"
      using i(2) by (simp add: py)
    ultimately show ?thesis
      using eq1 [OF that(1)] potential_row_select [of "?py ! i" _ _ "?t ! i"] by simp
  qed
  have full: "length ?y = nrows raw" if rect: "\<forall>c\<in>snd ` set raw. length c = nrows raw"
  proof -
    have "\<forall>c\<in>snd ` set (rename_columns raw). length c = nrows (rename_columns raw)"
      using rect by (metis rename_columns_props(2,3) set_map)
    from imputation_lengths [OF df this]
    have cols: "\<forall>c\<in>snd ` set df. length c = nrows raw" and nr: "nrows df = nrows raw"
      by (simp_all add: rename_columns_props)
    have "(''outcome(t=0)'', c0) \<in> set df" using c0 by (rule map_of_SomeD)
    then have "length c0 = nrows raw" using cols by force
    then have "length ?py = nrows raw" by (simp add: py)
    then show ?thesis
      using ly synthesize_lengths(2) [OF s] nr by simp
  qed
  note spl = split_Inr [OF sp]
  let ?idx = "train_idx_of rs r (length (x_of s))"
  have inr: "\<forall>i\<in>set ?idx. i < length ?y \<and> i < length ?t \<and> i < length ?py"
    by (rule split_in_range_all [OF sp])
  have lens: "length (train_t res) = length (train_y res)"
    "length (train_potential_y res) = length (train_y res)"
    by (simp_all add: spl)
  have tr: "train_y res ! j = ?y ! (?idx ! j) \<and> train_t res ! j = ?t ! (?idx ! j)
            \<and> train_potential_y res ! j = ?py ! (?idx ! j) \<and> ?idx ! j < length ?y"
    if "j < length (train_y res)" for j
  proof -
    have j: "j < length ?idx" using that by (simp add: spl(3))
    then have "?idx ! j \<in> set ?idx" by simp
    then show ?thesis using inr j by (simp add: spl)
  qed
  have eq3: "train_y res ! j = train_t res ! j * (train_potential_y res ! j ! 1)
                             + (1 - train_t res ! j) * (train_potential_y res ! j ! 0)"
    if "j < length (train_y res)" for j
    using tr [OF that] eq1 [of "?idx ! j"] by simp
  have eq4: "train_y res ! j = train_potential_y res ! j ! nat (train_t res ! j)"
    if "j < length (train_y res)" "binomial_ok rs" for j
    using tr [OF that(1)] eq2 [of "?idx ! j"] that(2) by simp
  from df s eq1 eq2 full lens eq3 eq4 show ?thesis by blast
qed

theorem observed_outcome_witness:
  "\<exists>res s. preprocess example_lib example_rs twins3 rate_08 = Inr res
     \<and> synthesize example_lib example_rs twins3_imputed = Inr s
     \<and> binomial_ok example_rs
     \<and> (\<forall>c\<in>snd ` set twins3. length c = nrows twins3)
     \<and> potential_y_of s = [[0, 0], [1, 0], [0, 1]] \<and> t_of s = [1, 0, 0] \<and> y_of s = [0, 1, 0]
     \<and> train_potential_y res = [[0, 1], [1, 0]] \<and> train_t res = [0, 0] \<and> train_y res = [0, 1]
     \<and> (\<forall>i<length (y_of s). y_of s ! i = potential_y_of s ! i ! nat (t_of s ! i))
     \<and> (\<forall>j<length (train_y res).
           train_y res ! j = train_potential_y res ! j ! nat (train_t res ! j))"
proof -
  from twins3_run obtain res s
    where run: "preprocess example_lib example_rs twins3 rate_08 = Inr res"
      "synthesize example_lib example_rs twins3_imputed = Inr s"
      "potential_y_of s = [[0, 0], [1, 0], [0, 1]]" "t_of s = [1, 0, 0]" "y_of s = [0, 1, 0]"
      "train_potential_y res = [[0, 1], [1, 0]]" "train_t res = [0, 0]" "train_y res = [0, 1]"
    by blast
  have rect: "\<forall>c\<in>snd ` set twins3. length c = nrows twins3"
    by (simp add: twins3_def nrows_def)
  from observed_outcome [OF run(1)] obtain df s'
    where o: "imputation (rename_columns twins3) = Inr df" "synthesize example_lib example_rs df = Inr s'"
      "binomial_ok example_rs \<longrightarrow>
         (\<forall>i<length (y_of s'). y_of s' ! i = potential_y_of s' ! i ! nat (t_of s' ! i))"
      "binomial_ok example_rs \<longrightarrow>
         (\<forall>j<length (train_y res).
            train_y res ! j = train_potential_y res ! j ! nat (train_t res ! j))"
    by blast
  have "df = twins3_imputed" using o(1) twins3_imputation by simp
  then have "s' = s" using o(2) run(2) by simp
  then show ?thesis
    using o(3,4) binomial_ok_example rect run by blast
qed

subsection \<open>Potential outcomes and treatment\<close>

lemma below_9999_binary: "below_9999 c = 0 \<or> below_9999 c = 1"
  by (cases c) auto

lemma split_in_range:
  assumes "split rs r s = Inr res"
  shows "\<forall>i\<in>set (train_idx_of rs r (length (x_of s))).
           i < length (t_of s) \<and> i < length (y_of s) \<and> i < length (potential_y_of s)"
    and "\<forall>i\<in>set (test_idx_of rs r (length (x_of s))). i < length (potential_y_of s)"
  using assms by (auto simp: split_def Let_def take_rows_Inr list_all_iff split: sum.splits if_splits)

text \<open>
  Claim C7.  \<open>potential_y\<close> has one row of two entries for each record, built from the
  two outcome columns of the loaded table: an entry is 1 when the label is below 9999
  and 0 otherwise.  Every entry of \<open>potential_y\<close> is 0 or 1, and so is every entry of
  the treatment vector \<open>t\<close>, a vector of Bernoulli draws.
\<close>

theorem potential_outcomes_binary:
  assumes "preprocess lib rs raw r = Inr res"
  shows "\<exists>df s c0 c1. imputation (rename_columns raw) = Inr df \<and> synthesize lib rs df = Inr s
     \<and> map_of (rename_columns raw) ''outcome(t=0)'' = Some c0
     \<and> map_of (rename_columns raw) ''outcome(t=1)'' = Some c1
     \<and> potential_y_of s = map (\<lambda>i. [below_9999 (c0 ! i), below_9999 (c1 ! i)]) [0..<length c0]
     \<and> (\<forall>v. below_9999 (Num v) = (if v < 9999 then 1 else 0)) \<and> below_9999 NaN = 0
     \<and> (\<forall>row\<in>set (potential_y_of s). length row = 2 \<and> (\<forall>e\<in>set row. e = 0 \<or> e = 1))
     \<and> ((\<forall>c\<in>snd ` set raw. length c = nrows raw) \<longrightarrow>
           length (potential_y_of s) = nrows raw \<and> length (x_of s) = nrows raw)
     \<and> length (t_of s) = length (x_of s)
     \<and> (binomial_ok rs \<longrightarrow> (\<forall>e\<in>set (t_of s). e = 0 \<or> e = 1))
     \<and> (\<forall>row\<in>set (train_potential_y res) \<union> set (test_potential_y res).
           length row = 2 \<and> (\<forall>e\<in>set row. e = 0 \<or> e = 1))
     \<and> (binomial_ok rs \<longrightarrow> (\<forall>e\<in>set (train_t res). e = 0 \<or> e = 1))"
proof -
  from preprocess_Inr [OF assms] obtain df s
    where df: "imputation (rename_columns raw) = Inr df"
      and s: "synthesize lib rs df = Inr s" and sp: "split rs r s = Inr res"
    by blast
  note sy = synthesize_Inr [OF s]
  let ?t = "t_of s" and ?py = "potential_y_of s"
  from potential_outcomes_Inr [OF sy(2)] obtain c0 c1
    where c0: "map_of df ''outcome(t=0)'' = Some c0"
      and c1: "map_of df ''outcome(t=1)'' = Some c1"
      and py: "?py = map (\<lambda>i. [below_9999 (c0 ! i), below_9999 (c1 ! i)]) [0..<length c0]"
    by blast
  have l0: "''outcome(t=0)'' \<in> set label_list" and l1: "''outcome(t=1)'' \<in> set label_list"
    by (simp_all add: label_list_def)
  have r0: "map_of (rename_columns raw) ''outcome(t=0)'' = Some c0"
    using imputation_columns(4) [OF df, of "''outcome(t=0)''"] label_not_imputed [OF l0] c0
    by simp
  have r1: "map_of (rename_columns raw) ''outcome(t=1)'' = Some c1"
    using imputation_columns(4) [OF df, of "''outcome(t=1)''"] label_not_imputed [OF l1] c1
    by simp
  have b: "(\<forall>v. below_9999 (Num v) = (if v < 9999 then 1 else 0)) \<and> below_9999 NaN = 0"
    by simp
  have rows: "length row = 2 \<and> (\<forall>e\<in>set row. e = 0 \<or> e = 1)" if "row \<in> set ?py" for row
  proof -
    from that obtain i where "row = [below_9999 (c0 ! i), below_9999 (c1 ! i)]"
      by (auto simp: py)
    then show ?thesis
      using below_9999_binary [of "c0 ! i"] below_9999_binary [of "c1 ! i"] by auto
  qed
  have lt: "length ?t = length (x_of s)"
    using synthesize_lengths [OF s] by simp
  have full: "length ?py = nrows raw \<and> length (x_of s) = nrows raw"
    if rect: "\<forall>c\<in>snd ` set raw. length c = nrows raw"
  proof -
    have "\<forall>c\<in>snd ` set (rename_columns raw). length c = nrows (rename_columns raw)"
      using rect by (metis rename_columns_props(2,3) set_map)
    from imputation_lengths [OF df this]
    have cols: "\<forall>c\<in>snd ` set df. length c = nrows raw" and nr: "nrows df = nrows raw"
      by (simp_all add: rename_columns_props)
    have "(''outcome(t=0)'', c0) \<in> set df" using c0 by (rule map_of_SomeD)
    then have "length c0 = nrows raw" using cols by force
    then have "length ?py = nrows raw" by (simp add: py)
    then show ?thesis using synthesize_lengths(1) [OF s] nr by simp
  qed
  have tb: "e = 0 \<or> e = 1" if "binomial_ok rs" "e \<in> set ?t" for e
  proof -
    from that(2) obtain i where "i < length ?t" "e = ?t ! i"
      by (auto simp: in_set_conv_nth)
    then show ?thesis using treatment_binary [OF sy(3) that(1)] by blast
  qed
  note spl = split_Inr [OF sp] and rng = split_in_range [OF sp]
  have sub_py: "set (train_potential_y res) \<union> set (test_potential_y res) \<subseteq> set ?py"
    using rng by (auto simp: spl)
  have sub_t: "set (train_t res) \<subseteq> set ?t"
    using rng by (auto simp: spl)
  have rows': "\<forall>row\<in>set (train_potential_y res) \<union> set (test_potential_y res).
           length row = 2 \<and> (\<forall>e\<in>set row. e = 0 \<or> e = 1)"
    using rows sub_py by blast
  have tb': "binomial_ok rs \<longrightarrow> (\<forall>e\<in>set (train_t res). e = 0 \<or> e = 1)"
    using tb sub_t by blast
  from df s r0 r1 py b rows full lt tb rows' tb' show ?thesis by blast
qed

theorem potential_outcomes_binary_witness:
  "\<exists>res s. preprocess example_lib example_rs twins3 rate_08 = Inr res
     \<and> synthesize example_lib example_rs twins3_imputed = Inr s
     \<and> binomial_ok example_rs
     \<and> (\<forall>c\<in>snd ` set twins3. length c = nrows twins3) \<and> nrows twins3 = 3
     \<and> map_of (rename_columns twins3) ''outcome(t=0)'' = Some [Num 9999, Num 100, Num 9999]
     \<and> map_of (rename_columns twins3) ''outcome(t=1)'' = Some [Num 9999, Num 9999, Num 50]
     \<and> potential_y_of s = [[0, 0], [1, 0], [0, 1]] \<and> t_of s = [1, 0, 0]
     \<and> length (potential_y_of s) = nrows twins3
     \<and> (\<forall>row\<in>set (potential_y_of s). length row = 2 \<and> (\<forall>e\<in>set row. e = 0 \<or> e = 1))
     \<and> (\<forall>e\<in>set (t_of s). e = 0 \<or> e = 1)"
proof -
  from twins3_run obtain res s
    where run: "preprocess example_lib example_rs twins3 rate_08 = Inr res"
      "synthesize example_lib example_rs twins3_imputed = Inr s"
      "potential_y_of s = [[0, 0], [1, 0], [0, 1]]" "t_of s = [1, 0, 0]"
    by blast
  have rect: "\<forall>c\<in>snd ` set twins3. length c = nrows twins3"
    by (simp add: twins3_def nrows_def)
  have c0: "map_of (rename_columns twins3) ''outcome(t=0)'' = Some [Num 9999, Num 100, Num 9999]"
    by code_simp
  have c1: "map_of (rename_columns twins3) ''outcome(t=1)'' = Some [Num 9999, Num 9999, Num 50]"
    by code_simp
  from potential_outcomes_binary [OF run(1)] obtain df s'
    where o: "imputation (rename_columns twins3) = Inr df" "synthesize example_lib example_rs df = Inr s'"
      "\<forall>row\<in>set (potential_y_of s'). length row = 2 \<and> (\<forall>e\<in>set row. e = 0 \<or> e = 1)"
      "(\<forall>c\<in>snd ` set twins3. length c = nrows twins3) \<longrightarrow>
           length (potential_y_of s') = nrows twins3 \<and> length (x_of s') = nrows twins3"
      "binomial_ok example_rs \<longrightarrow> (\<forall>e\<in>set (t_of s'). e = 0 \<or> e = 1)"
    by blast
  have "df = twins3_imputed" using o(1) twins3_imputation by simp
  then have "s' = s" using o(2) run(2) by simp
  then show ?thesis
    using o(3,4,5) binomial_ok_example rect nrows_twins3 c0 c1 run by blast
qed

subsection \<open>The feature matrix\<close>

lemma label_position:
  assumes "f \<in> fst ` set (rename_columns raw)"
  shows "\<exists>j<length raw. clean_label (fst (raw ! j)) = f"
proof -
  from assms have "f \<in> set (map fst (rename_columns raw))" by simp
  then obtain j where j: "j < length (map fst (rename_columns raw))"
    and eq: "map fst (rename_columns raw) ! j = f"
    by (auto simp: in_set_conv_nth simp del: set_map)
  from j have jl: "j < length raw" by (simp add: rename_columns_props)
  then have "fst (rename_columns raw ! j) = f"
    using eq by (simp add: rename_columns_props)
  then show ?thesis using jl by (auto simp: rename_columns_nth)
qed

text \<open>
  Claim C2.  The arrays \<open>train_x\<close> and \<open>test_x\<close> are rows of \<open>df.values\<close>, the loaded table
  after imputation, picked by the train and test indices.  Each row has one entry for
  every column of the file, the two outcome columns among them with the values as loaded.
  The result is computed from \<open>df\<close> alone: \<open>df_new\<close> does not enter \<open>synthesize\<close> or
  \<open>split\<close>.
\<close>

theorem features_are_table_rows:
  assumes "preprocess lib rs raw r = Inr res"
  shows "\<exists>df s. imputation (rename_columns raw) = Inr df
     \<and> synthesize lib rs df = Inr s \<and> split rs r s = Inr res \<and> x_of s = values_of df
     \<and> train_x res = map (\<lambda>i. values_of df ! i) (train_idx_of rs r (nrows df))
     \<and> test_x res = map (\<lambda>i. values_of df ! i) (test_idx_of rs r (nrows df))
     \<and> (\<forall>i\<in>set (train_idx_of rs r (nrows df)) \<union> set (test_idx_of rs r (nrows df)).
           i < nrows df)
     \<and> (\<forall>i<nrows df. values_of df ! i = map (\<lambda>(n, c). c ! i) df)
     \<and> map fst df = map fst (rename_columns raw)
     \<and> (\<forall>row\<in>set (train_x res) \<union> set (test_x res). length row = length raw)
     \<and> (\<exists>j0<length raw. clean_label (fst (raw ! j0)) = ''outcome(t=0)'')
     \<and> (\<exists>j1<length raw. clean_label (fst (raw ! j1)) = ''outcome(t=1)'')
     \<and> (\<forall>i<nrows df. \<forall>j<length raw. clean_label (fst (raw ! j)) \<in> set label_list
           \<longrightarrow> values_of df ! i ! j = snd (raw ! j) ! i)"
proof -
  from preprocess_Inr [OF assms] obtain df s
    where df: "imputation (rename_columns raw) = Inr df"
      and s: "synthesize lib rs df = Inr s" and sp: "split rs r s = Inr res"
    by blast
  note sy = synthesize_Inr [OF s] and spl = split_Inr [OF sp]
  note ic = imputation_columns [OF df]
  have lx: "length (x_of s) = nrows df" by (rule synthesize_lengths(1) [OF s])
  let ?tr = "train_idx_of rs r (nrows df)" and ?te = "test_idx_of rs r (nrows df)"
  have trx: "train_x res = map (\<lambda>i. values_of df ! i) ?tr"
    using spl(1) by (simp add: sy(1) length_values_of)
  have tex: "test_x res = map (\<lambda>i. values_of df ! i) ?te"
    using spl(5) by (simp add: sy(1) length_values_of)
  have rng: "\<forall>i\<in>set ?tr \<union> set ?te. i < nrows df"
    using spl(7,8) by (auto simp: lx list_all_iff)
  have row: "\<forall>i<nrows df. values_of df ! i = map (\<lambda>(n, c). c ! i) df"
    by (simp add: values_of_row)
  have ldf: "length df = length raw"
    using ic(3) by (metis length_map rename_columns_props(1))
  have lrow: "\<forall>row\<in>set (train_x res) \<union> set (test_x res). length row = length raw"
    using rng by (auto simp: trx tex values_of_row ldf)
  have pres: "''outcome(t=0)'' \<in> fst ` set (rename_columns raw)"
    "''outcome(t=1)'' \<in> fst ` set (rename_columns raw)"
  proof -
    from potential_outcomes_Inr [OF sy(2)] obtain c0 c1
      where "map_of df ''outcome(t=0)'' = Some c0" "map_of df ''outcome(t=1)'' = Some c1"
      by blast
    then have "''outcome(t=0)'' \<in> fst ` set df" "''outcome(t=1)'' \<in> fst ` set df"
      by (force dest: map_of_SomeD)+
    moreover have "fst ` set df = fst ` set (rename_columns raw)"
      using ic(3) by (metis set_map)
    ultimately show "''outcome(t=0)'' \<in> fst ` set (rename_columns raw)"
      "''outcome(t=1)'' \<in> fst ` set (rename_columns raw)" by simp_all
  qed
  have lab: "values_of df ! i ! j = snd (raw ! j) ! i"
    if "i < nrows df" "j < length raw" "clean_label (fst (raw ! j)) \<in> set label_list" for i j
  proof -
    have jj: "j < length (rename_columns raw)" using that(2) by (simp add: rename_columns_props)
    have nm: "fst (rename_columns raw ! j) = clean_label (fst (raw ! j))"
      using that(2) by (simp add: rename_columns_nth)
    have "df ! j = rename_columns raw ! j"
      using ic(5) [OF jj] label_not_imputed [OF that(3)] nm by simp
    then have "df ! j = (clean_label (fst (raw ! j)), snd (raw ! j))"
      using that(2) by (simp add: rename_columns_nth)
    then show ?thesis
      using that(1,2) ldf by (simp add: values_of_row)
  qed
  from df s sp sy(1) trx tex rng row ic(3) lrow label_position [OF pres(1)]
    label_position [OF pres(2)] lab
  show ?thesis by blast
qed

lemma twins3_row0:
  "values_of twins3_imputed ! 0 =
     [Num 25, Num 1, Num 0, Num 0, Num 20, Num 98, Num 12, Num 10, Num 1, Num 8, Num 0,
      Num 0, Num 0, Num 0, Num 0, Num 0, Num 1, Num 0, Num 0, Num 0, Num 0, Num 1, Num 0,
      Num 0, Num 0, Num 0, Num 0, Num 1, Num 1, Num 1, Num 9999, Num 9999]"
  by code_simp

theorem features_are_table_rows_witness:
  "\<exists>res. preprocess example_lib example_rs twins3 rate_08 = Inr res
     \<and> train_x res = map (\<lambda>i. values_of twins3_imputed ! i) [2, 1]
     \<and> test_x res = map (\<lambda>i. values_of twins3_imputed ! i) [0]
     \<and> nrows twins3_imputed = 3 \<and> length twins3 = 32
     \<and> clean_label (fst (twins3 ! 30)) \<in> set label_list
     \<and> values_of twins3_imputed ! 0 ! 30 = snd (twins3 ! 30) ! 0
     \<and> snd (twins3 ! 30) ! 0 = Num 9999
     \<and> (\<forall>row\<in>set (train_x res) \<union> set (test_x res). length row = length twins3)"
proof -
  from twins3_run obtain res
    where run: "preprocess example_lib example_rs twins3 rate_08 = Inr res"
      "train_x res = [values_of twins3_imputed ! 2, values_of twins3_imputed ! 1]"
      "test_x res = [values_of twins3_imputed ! 0]"
    by blast
  have nr: "nrows twins3_imputed = 3" by (simp add: nrows_def twins3_imputed_def)
  have len: "length twins3 = 32" by (simp add: twins3_def)
  have lab: "clean_label (fst (twins3 ! 30)) \<in> set label_list"
    by code_simp
  have v: "snd (twins3 ! 30) ! 0 = Num 9999"
    by (simp add: twins3_def)
  from features_are_table_rows [OF run(1)] obtain df
    where o: "imputation (rename_columns twins3) = Inr df"
      "\<forall>row\<in>set (train_x res) \<union> set (test_x res). length row = length twins3"
      "\<forall>i<nrows df. \<forall>j<length twins3. clean_label (fst (twins3 ! j)) \<in> set label_list
           \<longrightarrow> values_of df ! i ! j = snd (twins3 ! j) ! i"
    by blast
  have d: "df = twins3_imputed" using o(1) twins3_imputation by simp
  have i0: "(0::nat) < nrows twins3_imputed" by (simp add: nr)
  have j30: "(30::nat) < length twins3" by (simp add: len)
  have e: "values_of twins3_imputed ! 0 ! 30 = snd (twins3 ! 30) ! 0"
    using o(3) [unfolded d, rule_format, OF i0 j30 lab] .
  have tr: "train_x res = map (\<lambda>i. values_of twins3_imputed ! i) [2, 1]"
    by (simp add: run(2))
  have te: "test_x res = map (\<lambda>i. values_of twins3_imputed ! i) [0]"
    by (simp add: run(3))
  from run(1) tr te nr len lab e v o(2) show ?thesis by blast
qed

text \<open>
  Claim C1 on \<open>twins3\<close>.  The feature builder assembles 33 columns (continuous, binary,
  indicators); the rows that \<open>preprocess\<close> returns are the 32 columns of the loaded
  table, the raw category codes and the two outcome labels included.
\<close>

theorem features_not_df_new:
  "build_df_new twins3_imputed = Inr twins3_df_new
   \<and> map length (rows_of twins3_df_new) = [33, 33, 33]
   \<and> rows_of twins3_df_new ! 0 =
       [Num 25, Num 1, Num 0, Num 0, Num 20, Num 98, Num 12, Num 10, Num 1, Num 8, Num 0,
        Num 0, Num 0, Num 0, Num 0, Num 0, Num 1, Num 0, Num 0, Num 0, Num 0, Num 1, Num 0,
        Num 0, Num 0, Num 0, Num 0, Num 1, Num 0, Num 1, Num 1, Num 0, Num 0]
   \<and> (\<exists>res. preprocess example_lib example_rs twins3 rate_08 = Inr res
         \<and> map length (train_x res @ test_x res) = [32, 32, 32]
         \<and> test_x res =
             [[Num 25, Num 1, Num 0, Num 0, Num 20, Num 98, Num 12, Num 10, Num 1, Num 8,
               Num 0, Num 0, Num 0, Num 0, Num 0, Num 0, Num 1, Num 0, Num 0, Num 0, Num 0,
               Num 1, Num 0, Num 0, Num 0, Num 0, Num 0, Num 1, Num 1, Num 1, Num 9999,
               Num 9999]]
         \<and> test_x res \<noteq> [rows_of twins3_df_new ! 0])"
proof -
  have r0: "rows_of twins3_df_new ! 0 =
       [Num 25, Num 1, Num 0, Num 0, Num 20, Num 98, Num 12, Num 10, Num 1, Num 8, Num 0,
        Num 0, Num 0, Num 0, Num 0, Num 0, Num 1, Num 0, Num 0, Num 0, Num 0, Num 1, Num 0,
        Num 0, Num 0, Num 0, Num 0, Num 1, Num 0, Num 1, Num 1, Num 0, Num 0]"
    by code_simp
  have ln: "map length (rows_of twins3_df_new) = [33, 33, 33]"
    by code_simp
  have lx: "map length [values_of twins3_imputed ! 2, values_of twins3_imputed ! 1,
                        values_of twins3_imputed ! 0] = [32, 32, 32]"
    by code_simp
  from twins3_run obtain res
    where run: "preprocess example_lib example_rs twins3 rate_08 = Inr res"
      "train_x res = [values_of twins3_imputed ! 2, values_of twins3_imputed ! 1]"
      "test_x res = [values_of twins3_imputed ! 0]"
    by blast
  have app: "train_x res @ test_x res = [values_of twins3_imputed ! 2,
      values_of twins3_imputed ! 1, values_of twins3_imputed ! 0]"
    by (simp only: run(2,3) append.simps)
  have a: "map length (train_x res @ test_x res) = [32, 32, 32]"
    by (simp only: app lx)
  have b: "test_x res =
             [[Num 25, Num 1, Num 0, Num 0, Num 20, Num 98, Num 12, Num 10, Num 1, Num 8,
               Num 0, Num 0, Num 0, Num 0, Num 0, Num 0, Num 1, Num 0, Num 0, Num 0, Num 0,
               Num 1, Num 0, Num 0, Num 0, Num 0, Num 0, Num 1, Num 1, Num 1, Num 9999,
               Num 9999]]"
    by (simp only: run(3) twins3_row0)
  have l32: "length (hd (test_x res)) = 32"
    by (simp add: b)
  have l33: "length (rows_of twins3_df_new ! 0) = 33"
    by (simp add: r0)
  have c: "test_x res \<noteq> [rows_of twins3_df_new ! 0]"
  proof
    assume "test_x res = [rows_of twins3_df_new ! 0]"
    then have "length (hd (test_x res)) = length (rows_of twins3_df_new ! 0)"
      by simp
    then show False by (simp add: l32 l33)
  qed
  have ex: "\<exists>res. preprocess example_lib example_rs twins3 rate_08 = Inr res
         \<and> map length (train_x res @ test_x res) = [32, 32, 32]
         \<and> test_x res =
             [[Num 25, Num 1, Num 0, Num 0, Num 20, Num 98, Num 12, Num 10, Num 1, Num 8,
               Num 0, Num 0, Num 0, Num 0, Num 0, Num 0, Num 1, Num 0, Num 0, Num 0, Num 0,
               Num 1, Num 0, Num 0, Num 0, Num 0, Num 0, Num 1, Num 1, Num 1, Num 9999,
               Num 9999]]
         \<and> test_x res \<noteq> [rows_of twins3_df_new ! 0]"
    by (intro exI [of _ res] conjI) (fact run(1) a b c)+
  show ?thesis
    by (intro conjI) (fact twins3_build_df_new ln r0 ex)+
qed

end
